theory Spec2Isabelle
  imports Complex_Main "HOL-Library.Word"
begin

section \<open>Exceptions\<close>

text \<open>
  The Python exceptions that the two scripts can meet. Every one of them is a subclass of
  \<^verbatim>\<open>Exception\<close>, so \<^verbatim>\<open>except Exception\<close> catches each. \<open>ServiceError msg\<close> stands for
  any exception raised by an external service (\<^verbatim>\<open>hf_hub_download\<close>, \<^verbatim>\<open>list_repo_files\<close>);
  \<open>msg\<close> is what \<^verbatim>\<open>str(e)\<close> returns for it.
\<close>

datatype exn =
    FileExistsError
  | FileNotFoundError
  | NotADirectoryError
  | OverflowError
  | ServiceError string

fun str_exn :: "exn \<Rightarrow> string" where
  "str_exn FileExistsError = ''File exists''"
| "str_exn FileNotFoundError = ''No such file or directory''"
| "str_exn NotADirectoryError = ''Not a directory''"
| "str_exn OverflowError = ''int too large to convert to float''"
| "str_exn (ServiceError msg) = msg"

section \<open>Numbers as text\<close>

definition digit_char :: "nat \<Rightarrow> char" where
  "digit_char d = ''0123456789'' ! d"

text \<open>Python's \<^verbatim>\<open>str(n)\<close> for a non-negative integer: decimal digits, no leading zero.\<close>

fun str_nat :: "nat \<Rightarrow> string" where
  "str_nat n = (if n < 10 then [digit_char n] else str_nat (n div 10) @ [digit_char (n mod 10)])"

declare str_nat.simps [simp del]

definition str_int :: "int \<Rightarrow> string" where
  "str_int i = (if i < 0 then CHR ''-'' # str_nat (nat (- i)) else str_nat (nat i))"

subsection \<open>Floating point\<close>

text \<open>
  A Python \<^verbatim>\<open>float\<close> is an IEEE 754 double. The model carries its exact value, a rational
  number. Three operations of \<^verbatim>\<open>format_file_size\<close> touch floats:
  \<^item> the conversion of an \<^verbatim>\<open>int\<close> to a \<^verbatim>\<open>float\<close> (in \<^verbatim>\<open>size_bytes /= 1024.0\<close> and in
    formatting an \<^verbatim>\<open>int\<close> with \<^verbatim>\<open>.1f\<close>): the integer is rounded to 53 significant bits,
    ties to even, and the conversion raises \<^verbatim>\<open>OverflowError\<close> when the rounded value
    reaches \<open>2 ^ 1024\<close>;
  \<^item> the division of a float that is at least 1024 by 1024.0, which is exact (a power of
    two, no underflow);
  \<^item> the format \<^verbatim>\<open>.1f\<close>, which prints the exact value correctly rounded to one decimal,
    ties to even.
\<close>

text \<open>\<open>round_shift n\<close>: how many low bits the conversion drops, \<open>bit_length n - 53\<close> or 0.\<close>

function round_shift :: "nat \<Rightarrow> nat" where
  "round_shift n = (if n < 2 ^ 53 then 0 else Suc (round_shift (n div 2)))"
  by pat_completeness auto
termination
  by (relation "measure (\<lambda>n. n)") auto

declare round_shift.simps [simp del]

text \<open>The nearest integer with at most 53 significant bits, ties to the even mantissa.\<close>

definition round_to_53_bits :: "nat \<Rightarrow> nat" where
  "round_to_53_bits n =
     (let s = round_shift n;
          q = n div 2 ^ s;
          r = n mod 2 ^ s;
          q' = (if 2 ^ s < 2 * r \<or> (2 * r = 2 ^ s \<and> odd q) then q + 1 else q)
      in q' * 2 ^ s)"

definition float_of_nat :: "nat \<Rightarrow> exn + rat" where
  "float_of_nat n =
     (let v = round_to_53_bits n
      in if 2 ^ 1024 \<le> v then Inl OverflowError else Inr (of_nat v))"

definition float_of_int :: "int \<Rightarrow> exn + rat" where
  "float_of_int i =
     (if i < 0 then (case float_of_nat (nat (- i)) of Inl e \<Rightarrow> Inl e | Inr v \<Rightarrow> Inr (- v))
      else float_of_nat (nat i))"

text \<open>Rounding a non-negative rational to the nearest integer, ties to even.\<close>

definition round_half_even :: "rat \<Rightarrow> nat" where
  "round_half_even x =
     (let f = nat \<lfloor>x\<rfloor>; d = x - of_nat f
      in if d < 1 / 2 then f else if 1 / 2 < d then f + 1 else if even f then f else f + 1)"

text \<open>\<^verbatim>\<open>f"{v:.1f}"\<close>: one digit after the point; the sign is printed for a negative value.\<close>

definition format_1f :: "rat \<Rightarrow> string" where
  "format_1f v =
     (let t = round_half_even (\<bar>v\<bar> * 10)
      in (if v < 0 then ''-'' else '''') @ str_nat (t div 10) @ ''.'' @ [digit_char (t mod 10)])"

section \<open>Size formatting\<close>

text \<open>
  \<^verbatim>\<open>
  def format_file_size(size_bytes):
      if size_bytes == 0:
          return "0 B"
      for unit in ['B', 'KB', 'MB', 'GB']:
          if size_bytes < 1024.0:
              return f"{size_bytes:.1f} {unit}"
          size_bytes /= 1024.0
      return f"{size_bytes:.1f} TB"
  \<close>
  The callers pass an \<^verbatim>\<open>int\<close>. In the first round of the loop \<^verbatim>\<open>size_bytes\<close> is still that
  \<^verbatim>\<open>int\<close>: it is compared exactly, and either formatted (which converts it to a float) or
  divided by 1024.0 (which converts it too). From then on it is a float, and \<open>units_loop\<close>
  is the rest of the loop.
\<close>

fun units_loop :: "rat \<Rightarrow> string list \<Rightarrow> string" where
  "units_loop size_bytes [] = format_1f size_bytes @ '' TB''"
| "units_loop size_bytes (unit # units) =
     (if size_bytes < 1024 then format_1f size_bytes @ '' '' @ unit
      else units_loop (size_bytes / 1024) units)"

definition format_file_size :: "int \<Rightarrow> exn + string" where
  "format_file_size size_bytes =
     (if size_bytes = 0 then Inr ''0 B''
      else case float_of_int size_bytes of
             Inl e \<Rightarrow> Inl e
           | Inr v \<Rightarrow>
               if size_bytes < 1024 then Inr (format_1f v @ '' B'')
               else Inr (units_loop (v / 1024) [''KB'', ''MB'', ''GB'']))"

section \<open>Paths and the filesystem\<close>

text \<open>
  The filesystem is a tree of nodes addressed by the list of names from the root. A node is
  a regular file or a directory and carries the size that \<^verbatim>\<open>stat\<close> reports for it
  (\<^verbatim>\<open>st_size\<close>, a non-negative 64-bit \<^verbatim>\<open>off_t\<close>, hence 63 bits). Symbolic links and
  permissions are not modelled.
\<close>

type_synonym path = "string list"

datatype node = File (st_size: "63 word") | Dir (st_size: "63 word")

record filesystem =
  nodes :: "path \<rightharpoonup> node"
  cwd :: path
  dir_size :: "63 word"

text \<open>Python's \<^verbatim>\<open>s.split('/')\<close>.\<close>

fun split_slash :: "string \<Rightarrow> string list" where
  "split_slash [] = [[]]"
| "split_slash (c # cs) =
     (if c = CHR ''/'' then [] # split_slash cs
      else (case split_slash cs of [] \<Rightarrow> [[c]] | x # xs \<Rightarrow> (c # x) # xs))"

text \<open>
  Path resolution as the kernel does it: each component is looked up in the directory
  reached so far, which must exist and be a directory; an empty component and \<^verbatim>\<open>.\<close>
  stay, \<^verbatim>\<open>..\<close> goes to the parent (the root is its own parent). The result is the
  location of the last component, which need not exist.
\<close>

fun walk :: "(path \<rightharpoonup> node) \<Rightarrow> path \<Rightarrow> string list \<Rightarrow> exn + path" where
  "walk ns cur [] = Inr cur"
| "walk ns cur (c # cs) =
     (case ns cur of
        None \<Rightarrow> Inl FileNotFoundError
      | Some (File _) \<Rightarrow> Inl NotADirectoryError
      | Some (Dir _) \<Rightarrow>
          if c = [] \<or> c = ''.'' then walk ns cur cs
          else if c = ''..'' then walk ns (butlast cur) cs
          else walk ns (cur @ [c]) cs)"

text \<open>
  The location that a path string names: relative to the working directory unless the
  string starts with a slash; the empty string names nothing.
\<close>

definition resolve :: "filesystem \<Rightarrow> string \<Rightarrow> exn + path" where
  "resolve fs p =
     (if p = [] then Inl FileNotFoundError
      else walk (nodes fs) (if hd p = CHR ''/'' then [] else cwd fs) (split_slash p))"

definition os_stat :: "filesystem \<Rightarrow> string \<Rightarrow> exn + node" where
  "os_stat fs p =
     (case resolve fs p of
        Inl e \<Rightarrow> Inl e
      | Inr loc \<Rightarrow> (case nodes fs loc of None \<Rightarrow> Inl FileNotFoundError | Some n \<Rightarrow> Inr n))"

text \<open>\<^verbatim>\<open>os.path.exists\<close> returns False when \<^verbatim>\<open>os.stat\<close> raises.\<close>

definition os_path_exists :: "filesystem \<Rightarrow> string \<Rightarrow> bool" where
  "os_path_exists fs p = (case os_stat fs p of Inl _ \<Rightarrow> False | Inr _ \<Rightarrow> True)"

definition os_path_getsize :: "filesystem \<Rightarrow> string \<Rightarrow> exn + int" where
  "os_path_getsize fs p = (case os_stat fs p of Inl e \<Rightarrow> Inl e | Inr n \<Rightarrow> Inr (uint (st_size n)))"

text \<open>\<^verbatim>\<open>os.path.join(a, b)\<close> of \<^verbatim>\<open>posixpath\<close>: an absolute \<open>b\<close> replaces \<open>a\<close>.\<close>

definition os_path_join :: "string \<Rightarrow> string \<Rightarrow> string" where
  "os_path_join a b =
     (if b \<noteq> [] \<and> hd b = CHR ''/'' then b
      else if a = [] \<or> last a = CHR ''/'' then a @ b
      else a @ ''/'' @ b)"

subsection \<open>pathlib\<close>

text \<open>
  \<^verbatim>\<open>Path(s)\<close> keeps whether \<open>s\<close> is absolute and its components, without the empty ones and
  without \<^verbatim>\<open>.\<close>; \<^verbatim>\<open>..\<close> is kept. A path without components is printed \<^verbatim>\<open>.\<close> (or \<^verbatim>\<open>/\<close>),
  which is what the system calls then resolve.
\<close>

record pure_path =
  is_abs :: bool
  parts :: "string list"

definition Path :: "string \<Rightarrow> pure_path" where
  "Path s = \<lparr>is_abs = (s \<noteq> [] \<and> hd s = CHR ''/''),
             parts = filter (\<lambda>c. c \<noteq> [] \<and> c \<noteq> ''.'') (split_slash s)\<rparr>"

definition parent :: "pure_path \<Rightarrow> pure_path" where
  "parent p = p\<lparr>parts := butlast (parts p)\<rparr>"

definition path_walk :: "filesystem \<Rightarrow> pure_path \<Rightarrow> exn + path" where
  "path_walk fs p =
     walk (nodes fs) (if is_abs p then [] else cwd fs) (if parts p = [] then [''.''] else parts p)"

text \<open>\<^verbatim>\<open>Path.is_dir()\<close>: False when the path does not resolve.\<close>

definition path_is_dir :: "filesystem \<Rightarrow> pure_path \<Rightarrow> bool" where
  "path_is_dir fs p =
     (case path_walk fs p of
        Inl _ \<Rightarrow> False
      | Inr loc \<Rightarrow> (case nodes fs loc of Some (Dir _) \<Rightarrow> True | _ \<Rightarrow> False))"

text \<open>\<^verbatim>\<open>os.mkdir\<close>: the parent must resolve to a directory and the name must be free.\<close>

definition os_mkdir :: "filesystem \<Rightarrow> pure_path \<Rightarrow> exn + filesystem" where
  "os_mkdir fs p =
     (case path_walk fs p of
        Inl e \<Rightarrow> Inl e
      | Inr loc \<Rightarrow>
          (case nodes fs loc of
             Some _ \<Rightarrow> Inl FileExistsError
           | None \<Rightarrow> Inr (fs\<lparr>nodes := (nodes fs)(loc \<mapsto> Dir (dir_size fs))\<rparr>)))"

text \<open>
  \<^verbatim>\<open>
  def mkdir(self, mode=0o777, parents=False, exist_ok=False):
      try:
          os.mkdir(self, mode)
      except FileNotFoundError:
          if not parents or self.parent == self:
              raise
          self.parent.mkdir(parents=True, exist_ok=True)
          self.mkdir(mode, parents=False, exist_ok=exist_ok)
      except OSError:
          if not exist_ok or not self.is_dir():
              raise
  \<close>
  An exception that leaves \<^verbatim>\<open>mkdir\<close> is not caught anywhere in the scripts and ends the
  run, so the model does not keep the filesystem of that moment.
\<close>

function path_mkdir :: "bool \<Rightarrow> bool \<Rightarrow> pure_path \<Rightarrow> filesystem \<Rightarrow> exn + filesystem" where
  "path_mkdir parents exist_ok p fs =
     (case os_mkdir fs p of
        Inr fs' \<Rightarrow> Inr fs'
      | Inl FileNotFoundError \<Rightarrow>
          if \<not> parents \<or> parent p = p then Inl FileNotFoundError
          else (case path_mkdir True True (parent p) fs of
                  Inl e \<Rightarrow> Inl e
                | Inr fs' \<Rightarrow> path_mkdir False exist_ok p fs')
      | Inl e \<Rightarrow> if \<not> exist_ok \<or> \<not> path_is_dir fs p then Inl e else Inr fs)"
  by pat_completeness auto
termination
proof (relation "measure (\<lambda>(parents, exist_ok, p, fs). 2 * length (parts p) + (if parents then 1 else 0))")
  show "wf (measure (\<lambda>(parents, exist_ok, p, fs). 2 * length (parts p) + (if parents then 1 else 0)))"
    by simp
next
  fix parents exist_ok :: bool and p :: pure_path and fs :: filesystem
  assume "\<not> (\<not> parents \<or> parent p = p)"
  then have "parents" and "parts p \<noteq> []"
    by (auto simp: parent_def)
  then show "((True, True, parent p, fs), (parents, exist_ok, p, fs))
             \<in> measure (\<lambda>(parents, exist_ok, p, fs). 2 * length (parts p) + (if parents then 1 else 0))"
    by (cases "parts p") (auto simp: parent_def)
next
  fix parents exist_ok :: bool and p :: pure_path and fs fs' :: filesystem
  assume "\<not> (\<not> parents \<or> parent p = p)"
  then show "((False, exist_ok, p, fs'), (parents, exist_ok, p, fs))
             \<in> measure (\<lambda>(parents, exist_ok, p, fs). 2 * length (parts p) + (if parents then 1 else 0))"
    by simp
qed

declare path_mkdir.simps [simp del]

section \<open>The world of a run\<close>

text \<open>
  What a script can see and change: the filesystem, the state of the remote services
  (of any type \<open>'r\<close>; the scripts never look into it), and the lines printed so far, one
  entry for each call of \<^verbatim>\<open>print\<close>. \<open>fetch_log\<close> is a record kept by the model: the arguments
  of every call of the fetch service, in order.
\<close>

record 'r world =
  disk :: filesystem
  remote :: 'r
  out :: "string list"
  fetch_log :: "(string \<times> string \<times> string) list"

definition print :: "string \<Rightarrow> 'r world \<Rightarrow> 'r world" where
  "print line w = w\<lparr>out := out w @ [line]\<rparr>"

text \<open>
  The external services. \<^verbatim>\<open>hf_hub_download(repo_id, filename, local_dir)\<close> may change the
  remote state and the filesystem in any way, and returns a path or raises.
  \<^verbatim>\<open>list_repo_files(repo)\<close> returns the filenames of a repository or raises.
\<close>

type_synonym 'r fetch_service =
  "'r \<Rightarrow> filesystem \<Rightarrow> string \<Rightarrow> string \<Rightarrow> string \<Rightarrow> (exn + string) \<times> 'r \<times> filesystem"

type_synonym 'r listing_service = "'r \<Rightarrow> string \<Rightarrow> (exn + string list) \<times> 'r"

text \<open>The symbols of the messages, as the UTF-8 bytes that are printed.\<close>

definition newline :: string where "newline = [CHR 0x0A]"
definition check_mark :: string where "check_mark = [CHR 0xE2, CHR 0x9C, CHR 0x93]"
definition cross_mark :: string where "cross_mark = [CHR 0xE2, CHR 0x9D, CHR 0x8C]"
definition inbox_tray :: string where "inbox_tray = [CHR 0xF0, CHR 0x9F, CHR 0x93, CHR 0xA5]"
definition bar_chart :: string where "bar_chart = [CHR 0xF0, CHR 0x9F, CHR 0x93, CHR 0x8A]"
definition package :: string where "package = [CHR 0xF0, CHR 0x9F, CHR 0x93, CHR 0xA6]"
definition party_popper :: string where "party_popper = [CHR 0xF0, CHR 0x9F, CHR 0x8E, CHR 0x89]"
definition warning_sign :: string where
  "warning_sign = [CHR 0xE2, CHR 0x9A, CHR 0xA0, CHR 0xEF, CHR 0xB8, CHR 0x8F]"
definition file_folder :: string where "file_folder = [CHR 0xF0, CHR 0x9F, CHR 0x93, CHR 0x81]"

section \<open>The download script\<close>

record task =
  repo_id :: string
  filename :: string
  local_dir :: string
  description :: string

definition MODELS :: "task list" where
  "MODELS =
     [\<lparr>repo_id = ''irish-quant/Qwen-Qwen2.5-Coder-3B-Instruct-2bit'',
       filename = ''Qwen2.5-Coder-3B-Instruct-Q2_K.gguf'',
       local_dir = ''models/2bit'',
       description = ''2-bit quantized (0.5B, smallest, fastest)''\<rparr>,
      \<lparr>repo_id = ''irish-quant/Qwen-Qwen2.5-Coder-3B-Instruct-3bit'',
       filename = ''Qwen2.5-Coder-3B-Instruct-Q3_K_M.gguf'',
       local_dir = ''models/3bit'',
       description = ''3-bit quantized (0.6B, balanced)''\<rparr>,
      \<lparr>repo_id = ''irish-quant/Qwen-Qwen2.5-Coder-3B-Instruct-4bit'',
       filename = ''Qwen2.5-Coder-3B-Instruct-Q4_K_M.gguf'',
       local_dir = ''models/4bit'',
       description = ''4-bit quantized (highest quality)''\<rparr>]"

text \<open>
  \<^verbatim>\<open>
  def create_directory(path):
      Path(path).mkdir(parents=True, exist_ok=True)
      print(f"(check) Created directory: {path}")
  \<close>
\<close>

definition create_directory :: "string \<Rightarrow> 'r world \<Rightarrow> exn + 'r world" where
  "create_directory path w =
     (case path_mkdir True True (Path path) (disk w) of
        Inl e \<Rightarrow> Inl e
      | Inr fs' \<Rightarrow> Inr (print (check_mark @ '' Created directory: '' @ path) (w\<lparr>disk := fs'\<rparr>)))"

text \<open>
  \<^verbatim>\<open>
  def file_exists(file_path):
      if os.path.exists(file_path):
          size = os.path.getsize(file_path)
          return True, size
      return False, 0
  \<close>
\<close>

definition file_exists :: "'r world \<Rightarrow> string \<Rightarrow> exn + bool \<times> int" where
  "file_exists w file_path =
     (if os_path_exists (disk w) file_path then
        (case os_path_getsize (disk w) file_path of
           Inl e \<Rightarrow> Inl e
         | Inr sz \<Rightarrow> Inr (True, sz))
      else Inr (False, 0))"

text \<open>
  The \<^verbatim>\<open>try\<close> block of \<^verbatim>\<open>download_model\<close> with its handler. Every exception raised inside
  is caught by \<^verbatim>\<open>except Exception\<close>, so the block always returns a truth value.
\<close>

definition download_error :: "task \<Rightarrow> exn \<Rightarrow> 'r world \<Rightarrow> bool \<times> 'r world" where
  "download_error model_info e w =
     (False, print (cross_mark @ '' Error downloading '' @ filename model_info @ '': '' @ str_exn e) w)"

definition try_download :: "'r fetch_service \<Rightarrow> task \<Rightarrow> 'r world \<Rightarrow> bool \<times> 'r world" where
  "try_download hf_hub_download model_info w0 =
     (let w1 = print ''   Downloading... (this may take a while)'' w0;
          (result, remote', fs') =
             hf_hub_download (remote w1) (disk w1)
               (repo_id model_info) (filename model_info) (local_dir model_info);
          w2 = w1\<lparr>disk := fs', remote := remote',
                  fetch_log := fetch_log w1 @
                    [(repo_id model_info, filename model_info, local_dir model_info)]\<rparr>
      in case result of
           Inl e \<Rightarrow> download_error model_info e w2
         | Inr downloaded_path \<Rightarrow>
             if os_path_exists (disk w2) downloaded_path then
               (case os_path_getsize (disk w2) downloaded_path of
                  Inl e \<Rightarrow> download_error model_info e w2
                | Inr file_size \<Rightarrow>
                    let w3 = print (check_mark @ '' Successfully downloaded: '' @ downloaded_path) w2
                    in (case format_file_size file_size of
                          Inl e \<Rightarrow> download_error model_info e w3
                        | Inr size_text \<Rightarrow> (True, print (''  Size: '' @ size_text) w3)))
             else
               (False, print (cross_mark @ '' Download failed: File not found at '' @
                                downloaded_path) w2))"

text \<open>
  \<^verbatim>\<open>download_model\<close> from the existence check on (source lines 87 to 119), in the world
  that \<^verbatim>\<open>create_directory\<close> has left.
\<close>

definition download_checked ::
  "'r fetch_service \<Rightarrow> task \<Rightarrow> 'r world \<Rightarrow> exn + bool \<times> 'r world" where
  "download_checked hf_hub_download model_info w =
     (let file_path = os_path_join (local_dir model_info) (filename model_info)
      in case file_exists w file_path of
           Inl e \<Rightarrow> Inl e
         | Inr (exists, existing_size) \<Rightarrow>
             if exists then
               (let w1 = print (check_mark @ '' File already exists: '' @ file_path) w
                in case format_file_size existing_size of
                     Inl e \<Rightarrow> Inl e
                   | Inr size_text \<Rightarrow> Inr (True, print (''  Size: '' @ size_text) w1))
             else Inr (try_download hf_hub_download model_info w))"

definition download_model ::
  "'r fetch_service \<Rightarrow> task \<Rightarrow> 'r world \<Rightarrow> exn + bool \<times> 'r world" where
  "download_model hf_hub_download model_info w0 =
     (let w1 = print (newline @ inbox_tray @ '' Downloading '' @ description model_info) w0;
          w2 = print (''   Repository: '' @ repo_id model_info) w1;
          w3 = print (''   File: '' @ filename model_info) w2;
          w4 = print (''   Directory: '' @ local_dir model_info) w3
      in case create_directory (local_dir model_info) w4 of
           Inl e \<Rightarrow> Inl e
         | Inr w5 \<Rightarrow> download_checked hf_hub_download model_info w5)"

text \<open>
  The body of the loop of \<^verbatim>\<open>main\<close> for the \<open>i\<close>-th of \<open>n_models\<close> models, on the two counters
  \<^verbatim>\<open>success_count\<close> and \<^verbatim>\<open>total_size\<close>.
\<close>

definition main_step ::
  "'r fetch_service \<Rightarrow> nat \<Rightarrow> nat \<Rightarrow> task \<Rightarrow> int \<times> int \<Rightarrow> 'r world
     \<Rightarrow> exn + (int \<times> int) \<times> 'r world" where
  "main_step hf_hub_download n_models i model_info counters w0 =
     (let (success_count, total_size) = counters;
          w1 = print (newline @ ''['' @ str_nat i @ ''/'' @ str_nat n_models @ ''] Processing '' @
                        description model_info) w0
      in case download_model hf_hub_download model_info w1 of
           Inl e \<Rightarrow> Inl e
         | Inr (ok, w2) \<Rightarrow>
             if ok then
               (let file_path = os_path_join (local_dir model_info) (filename model_info)
                in if os_path_exists (disk w2) file_path then
                     (case os_path_getsize (disk w2) file_path of
                        Inl e \<Rightarrow> Inl e
                      | Inr sz \<Rightarrow> Inr ((success_count + 1, total_size + sz), w2))
                   else Inr ((success_count + 1, total_size), w2))
             else
               Inr ((success_count, total_size),
                    print (cross_mark @ '' Failed to download '' @ filename model_info) w2))"

fun main_loop ::
  "'r fetch_service \<Rightarrow> nat \<Rightarrow> nat \<Rightarrow> task list \<Rightarrow> int \<times> int \<Rightarrow> 'r world
     \<Rightarrow> exn + (int \<times> int) \<times> 'r world" where
  "main_loop hf_hub_download n_models i [] counters w = Inr (counters, w)"
| "main_loop hf_hub_download n_models i (model_info # rest) counters w =
     (case main_step hf_hub_download n_models i model_info counters w of
        Inl e \<Rightarrow> Inl e
      | Inr (counters', w') \<Rightarrow> main_loop hf_hub_download n_models (i + 1) rest counters' w')"

text \<open>The summary that \<^verbatim>\<open>main\<close> prints after the loop.\<close>

definition summary_head :: "nat \<Rightarrow> int \<Rightarrow> string \<Rightarrow> string list" where
  "summary_head n_models success_count size_text =
     [newline @ replicate 50 CHR ''='',
      bar_chart @ '' Download Summary'',
      replicate 50 CHR ''='',
      check_mark @ '' Successfully downloaded: '' @ str_int success_count @ ''/'' @
        str_nat n_models @ '' models'',
      package @ '' Total size: '' @ size_text]"

definition next_steps :: "string list" where
  "next_steps =
     [newline @ party_popper @ '' All models downloaded successfully!'',
      newline @ ''Next steps:'',
      ''1. Copy models to app/src/main/assets/models/'',
      ''2. Build the project: ./gradlew assembleDebug'',
      ''3. Install on device: adb install app/build/outputs/apk/debug/app-debug.apk'']"

definition retry_hint :: "int \<Rightarrow> string list" where
  "retry_hint failed =
     [newline @ warning_sign @ ''  '' @ str_int failed @ '' model(s) failed to download'',
      ''Please check your internet connection and try again'']"

definition print_all :: "string list \<Rightarrow> 'r world \<Rightarrow> 'r world" where
  "print_all lines w = fold print lines w"

text \<open>
  \<^verbatim>\<open>main\<close>, with the list \<^verbatim>\<open>MODELS\<close> as a parameter; the script runs it on \<open>MODELS\<close>. The
  size text is computed when its line is printed, after the four lines before it.
\<close>

definition main :: "'r fetch_service \<Rightarrow> task list \<Rightarrow> 'r world \<Rightarrow> exn + 'r world" where
  "main hf_hub_download models w0 =
     (let w1 = print_all
                 [''Mobile LLM Battery Benchmark - Model Downloader'',
                  replicate 50 CHR ''='',
                  ''Total models: '' @ str_nat (length models),
                  ''Models: Qwen2.5-Coder-3B-Instruct (2bit, 3bit, 4bit)''] w0
      in case main_loop hf_hub_download (length models) 1 models (0, 0) w1 of
           Inl e \<Rightarrow> Inl e
         | Inr ((success_count, total_size), w2) \<Rightarrow>
             (case format_file_size total_size of
                Inl e \<Rightarrow> Inl e
              | Inr size_text \<Rightarrow>
                  Inr (print_all
                         (summary_head (length models) success_count size_text @
                          (if success_count = int (length models) then next_steps
                           else retry_hint (int (length models) - success_count))) w2)))"

section \<open>The listing script\<close>

text \<open>Python's \<^verbatim>\<open>s.endswith(suffix)\<close>.\<close>

definition endswith :: "string \<Rightarrow> string \<Rightarrow> bool" where
  "endswith s suffix =
     (length suffix \<le> length s \<and> drop (length s - length suffix) s = suffix)"

text \<open>
  \<^verbatim>\<open>
  for repo in repos:
      print(f"\n(folder) Files in {repo}:")
      try:
          files = list_repo_files(repo)
          for file in files:
              if file.endswith('.gguf'):
                  print(f"  (check) {file}")
      except Exception as e:
          print(f"  (cross) Error: {e}")
  \<close>
\<close>

definition repos :: "string list" where
  "repos =
     [''irish-quant/Qwen-Qwen2.5-Coder-3B-Instruct-2bit'',
      ''irish-quant/Qwen-Qwen2.5-Coder-3B-Instruct-3bit'',
      ''irish-quant/Qwen-Qwen2.5-Coder-3B-Instruct-4bit'']"

fun report_files :: "string list \<Rightarrow> 'r world \<Rightarrow> 'r world" where
  "report_files [] w = w"
| "report_files (file # files) w =
     (if endswith file ''.gguf'' then report_files files (print (''  '' @ check_mark @ '' '' @ file) w)
      else report_files files w)"

definition list_repo :: "'r listing_service \<Rightarrow> string \<Rightarrow> 'r world \<Rightarrow> 'r world" where
  "list_repo list_repo_files repo w0 =
     (let w1 = print (newline @ file_folder @ '' Files in '' @ repo @ '':'') w0;
          (result, remote') = list_repo_files (remote w1) repo;
          w2 = w1\<lparr>remote := remote'\<rparr>
      in case result of
           Inr files \<Rightarrow> report_files files w2
         | Inl e \<Rightarrow> print (''  '' @ cross_mark @ '' Error: '' @ str_exn e) w2)"

fun list_files :: "'r listing_service \<Rightarrow> string list \<Rightarrow> 'r world \<Rightarrow> 'r world" where
  "list_files list_repo_files [] w = w"
| "list_files list_repo_files (repo # rest) w =
     list_files list_repo_files rest (list_repo list_repo_files repo w)"

section \<open>Notions used in the statements\<close>

text \<open>
  The world in which \<^verbatim>\<open>download_model\<close> makes its existence check: the four lines of the
  announcement and the line of \<^verbatim>\<open>create_directory\<close> are printed, and the filesystem is the
  one that the directory creation has left.
\<close>

definition checked_world :: "task \<Rightarrow> filesystem \<Rightarrow> 'r world \<Rightarrow> 'r world" where
  "checked_world t fs1 w =
     w\<lparr>disk := fs1,
       out := out w @ [newline @ inbox_tray @ '' Downloading '' @ description t,
                       ''   Repository: '' @ repo_id t,
                       ''   File: '' @ filename t,
                       ''   Directory: '' @ local_dir t,
                       check_mark @ '' Created directory: '' @ local_dir t]\<rparr>"

text \<open>The size of what is at a path, and 0 when nothing is there.\<close>

definition size_or_zero :: "filesystem \<Rightarrow> string \<Rightarrow> int" where
  "size_or_zero fsys p = (case os_path_getsize fsys p of Inl _ \<Rightarrow> 0 | Inr sz \<Rightarrow> sz)"

text \<open>The line that the loop of \<^verbatim>\<open>main\<close> prints before it processes a model.\<close>

definition step_header :: "nat \<Rightarrow> nat \<Rightarrow> task \<Rightarrow> string" where
  "step_header n_models i t =
     newline @ ''['' @ str_nat i @ ''/'' @ str_nat n_models @ ''] Processing '' @ description t"

text \<open>The four lines that \<^verbatim>\<open>main\<close> prints before the loop.\<close>

definition banner :: "nat \<Rightarrow> string list" where
  "banner n_models =
     [''Mobile LLM Battery Benchmark - Model Downloader'',
      replicate 50 CHR ''='',
      ''Total models: '' @ str_nat n_models,
      ''Models: Qwen2.5-Coder-3B-Instruct (2bit, 3bit, 4bit)'']"

text \<open>A name that path resolution takes as the name of an entry.\<close>

definition plain_name :: "string \<Rightarrow> bool" where
  "plain_name c = (c \<noteq> [] \<and> c \<noteq> ''.'' \<and> c \<noteq> ''..'')"

section \<open>Concrete worlds for the examples\<close>

text \<open>A world with an empty root directory as the working directory and nothing printed.\<close>

definition blank_world :: "unit world" where
  "blank_world = \<lparr>disk = \<lparr>nodes = [[] \<mapsto> Dir 4096], cwd = [], dir_size = 4096\<rparr>,
                   remote = (), out = [], fetch_log = []\<rparr>"

text \<open>A listing service that fails for one repository and lists three files for any other.\<close>

definition flaky_listing :: "unit listing_service" where
  "flaky_listing r repo =
     (if repo = ''org/broken'' then (Inl (ServiceError ''404 Not Found''), r)
      else (Inr [''a.gguf'', ''b.txt'', ''c.GGUF''], r))"

text \<open>A task with a one-level directory, and the same world with its file already there.\<close>

definition demo_task :: task where
  "demo_task = \<lparr>repo_id = ''org/repo'', filename = ''m.gguf'', local_dir = ''models'',
                 description = ''demo model''\<rparr>"

definition stocked_world :: "unit world" where
  "stocked_world =
     \<lparr>disk = \<lparr>nodes = [[] \<mapsto> Dir 4096, [''models''] \<mapsto> Dir 4096,
                        [''models'', ''m.gguf''] \<mapsto> File 300],
              cwd = [], dir_size = 4096\<rparr>,
      remote = (), out = [], fetch_log = []\<rparr>"


definition failing_fetch :: "unit fetch_service" where
  "failing_fetch r fsys repo file dir = (Inl (ServiceError ''connection reset''), r, fsys)"

text \<open>
  A fetch service for the three models of the script: 100 bytes for the 2-bit model, 200
  bytes for the 3-bit model, an error for the 4-bit model.
\<close>

definition two_of_three :: "unit fetch_service" where
  "two_of_three r fsys repo file dir =
     (if repo = ''irish-quant/Qwen-Qwen2.5-Coder-3B-Instruct-4bit''
      then (Inl (ServiceError ''connection reset''), r, fsys)
      else (Inr (os_path_join dir file), r,
            fsys\<lparr>nodes := (nodes fsys)(cwd fsys @ parts (Path dir) @ [file] \<mapsto>
                     File (if repo = ''irish-quant/Qwen-Qwen2.5-Coder-3B-Instruct-2bit''
                           then 100 else 200))\<rparr>))"

section \<open>Size formatting: properties\<close>

lemma round_shift_small: "n < 2 ^ 53 \<Longrightarrow> round_shift n = 0"
  by (simp add: round_shift.simps)

lemma round_to_53_bits_small: "n < 2 ^ 53 \<Longrightarrow> round_to_53_bits n = n"
  by (simp add: round_to_53_bits_def round_shift_small)

lemma float_of_nat_small: "n < 2 ^ 53 \<Longrightarrow> float_of_nat n = Inr (of_nat n)"
  by (simp add: float_of_nat_def round_to_53_bits_small)

lemma str_nat_digit: "n < 10 \<Longrightarrow> str_nat n = [digit_char n]"
  by (simp add: str_nat.simps)

lemma digit_chars:
  "digit_char 0 = CHR ''0''" "digit_char 1 = CHR ''1''" "digit_char 2 = CHR ''2''"
  "digit_char 3 = CHR ''3''" "digit_char 4 = CHR ''4''" "digit_char 5 = CHR ''5''"
  "digit_char 6 = CHR ''6''" "digit_char 7 = CHR ''7''" "digit_char 8 = CHR ''8''"
  "digit_char 9 = CHR ''9''" "digit_char (Suc 0) = CHR ''1''"
  by (simp_all add: digit_char_def)

lemma format_1f_one: "format_1f 1 = ''1.0''"
  by (simp add: format_1f_def round_half_even_def str_nat_digit digit_chars)

lemma format_1024: "format_file_size 1024 = Inr ''1.0 KB''"
  by (simp add: format_file_size_def float_of_int_def float_of_nat_small format_1f_one)

lemma format_1024_2: "format_file_size (1024 ^ 2) = Inr ''1.0 MB''"
  by (simp add: format_file_size_def float_of_int_def float_of_nat_small format_1f_one)

lemma format_1024_3: "format_file_size (1024 ^ 3) = Inr ''1.0 GB''"
  by (simp add: format_file_size_def float_of_int_def float_of_nat_small format_1f_one)

lemma format_1024_4: "format_file_size (1024 ^ 4) = Inr ''1.0 TB''"
  by (simp add: format_file_size_def float_of_int_def float_of_nat_small format_1f_one)

lemma format_1023: "format_file_size 1023 = Inr ''1023.0 B''"
  by (simp add: format_file_size_def float_of_int_def float_of_nat_small format_1f_def
      round_half_even_def str_nat.simps digit_chars)

lemma format_300: "format_file_size 300 = Inr ''300.0 B''"
  by (simp add: format_file_size_def float_of_int_def float_of_nat_small format_1f_def
      round_half_even_def str_nat.simps digit_chars)

lemma format_1536: "format_file_size 1536 = Inr ''1.5 KB''"
  by (simp add: format_file_size_def float_of_int_def float_of_nat_small format_1f_def
      round_half_even_def str_nat.simps digit_chars)

lemma round_shift_upper: "n div 2 ^ round_shift n < 2 ^ 53"
proof (induction n rule: round_shift.induct)
  case (1 n)
  show ?case
  proof (cases "n < 2 ^ 53")
    case True
    then show ?thesis by (simp add: round_shift_small)
  next
    case False
    then have rs: "round_shift n = Suc (round_shift (n div 2))"
      by (simp add: round_shift.simps [of n])
    have "n div 2 ^ Suc (round_shift (n div 2)) = (n div 2) div 2 ^ round_shift (n div 2)"
      by (simp add: div_mult2_eq)
    with 1 False rs show ?thesis by simp
  qed
qed

lemma round_shift_lower: "0 < round_shift n \<Longrightarrow> 2 ^ 52 \<le> n div 2 ^ round_shift n"
proof (induction n rule: round_shift.induct)
  case (1 n)
  from "1.prems" have big: "\<not> n < 2 ^ 53"
    by (auto simp: round_shift_small)
  then have rs: "round_shift n = Suc (round_shift (n div 2))"
    by (simp add: round_shift.simps [of n])
  have dv: "n div 2 ^ Suc (round_shift (n div 2)) = (n div 2) div 2 ^ round_shift (n div 2)"
    by (simp add: div_mult2_eq)
  show ?case
  proof (cases "0 < round_shift (n div 2)")
    case True
    with 1 big rs dv show ?thesis by simp
  next
    case False
    then have z: "round_shift (n div 2) = 0" by simp
    from big have "2 ^ 52 \<le> n div 2" by simp
    with rs z show ?thesis by simp
  qed
qed

lemma round_shift_le: "n < 2 ^ (53 + k) \<Longrightarrow> round_shift n \<le> k"
proof (rule ccontr)
  assume n: "n < 2 ^ (53 + k)" and "\<not> round_shift n \<le> k"
  then have k: "Suc k \<le> round_shift n" by simp
  then have "0 < round_shift n" by simp
  then have "2 ^ 52 \<le> n div 2 ^ round_shift n" by (rule round_shift_lower)
  then have "2 ^ 52 * 2 ^ round_shift n \<le> n div 2 ^ round_shift n * 2 ^ round_shift n"
    by (rule mult_le_mono1)
  also have "\<dots> \<le> n"
    by (rule div_times_less_eq_dividend)
  finally have "2 ^ 52 * 2 ^ round_shift n \<le> n" .
  moreover have "(2::nat) ^ Suc k \<le> 2 ^ round_shift n"
    using k by (intro power_increasing) simp_all
  then have "(2::nat) ^ 52 * 2 ^ Suc k \<le> 2 ^ 52 * 2 ^ round_shift n"
    by simp
  moreover have "(2::nat) ^ 52 * 2 ^ Suc k = 2 ^ (53 + k)"
    by (simp add: power_add)
  ultimately show False using n by linarith
qed


lemma round_to_53_bits_cases:
  fixes n :: nat
  defines "s \<equiv> round_shift n"
  defines "q \<equiv> n div 2 ^ s"
  defines "r \<equiv> n mod 2 ^ s"
  shows "round_to_53_bits n =
           (if 2 ^ s < 2 * r \<or> (2 * r = 2 ^ s \<and> odd q) then q + 1 else q) * 2 ^ s"
  by (simp add: round_to_53_bits_def Let_def s_def q_def r_def)

lemma round_to_53_bits_ge: "m \<le> 2 ^ 53 \<Longrightarrow> m \<le> n \<Longrightarrow> m \<le> round_to_53_bits n"
proof (cases "n < 2 ^ 53")
  case True
  assume "m \<le> n"
  with True show ?thesis by (simp add: round_to_53_bits_small)
next
  case False
  assume m: "m \<le> 2 ^ 53"
  have "0 < round_shift n"
  proof (rule ccontr)
    assume "\<not> 0 < round_shift n"
    then have "round_shift n = 0" by simp
    with round_shift_upper [of n] False show False by simp
  qed
  then have q: "2 ^ 52 \<le> n div 2 ^ round_shift n" and s: "1 \<le> round_shift n"
    by (rule round_shift_lower, simp)
  have "(2::nat) ^ 1 \<le> 2 ^ round_shift n"
    using s by (rule power_increasing) simp
  then have "(2::nat) ^ 52 * 2 ^ 1 \<le> n div 2 ^ round_shift n * 2 ^ round_shift n"
    using q by (rule mult_le_mono [rotated])
  also have "\<dots> \<le> round_to_53_bits n"
    by (simp add: round_to_53_bits_cases)
  finally show ?thesis using m by simp
qed

lemma round_to_53_bits_overflow:
  "2 ^ 1024 \<le> round_to_53_bits n \<longleftrightarrow> 2 ^ 1024 - 2 ^ 970 \<le> n"
proof -
  define s where "s = round_shift n"
  define q where "q = n div 2 ^ s"
  define r where "r = n mod 2 ^ s"
  define q' where "q' = (if 2 ^ s < 2 * r \<or> (2 * r = 2 ^ s \<and> odd q) then q + 1 else q)"
  have v: "round_to_53_bits n = q' * 2 ^ s"
    by (simp add: round_to_53_bits_def Let_def s_def q_def r_def q'_def)
  have q_up: "q < 2 ^ 53"
    unfolding q_def s_def by (rule round_shift_upper)
  have q_low: "0 < s \<Longrightarrow> 2 ^ 52 \<le> q"
    unfolding q_def s_def by (rule round_shift_lower)
  have n: "n = q * 2 ^ s + r"
    unfolding q_def r_def by (rule div_mult_mod_eq [symmetric])
  have r: "r < 2 ^ s"
    unfolding r_def by simp
  have q'_le: "q' \<le> q + 1" and q'_ge: "q \<le> q'"
    by (simp_all add: q'_def)
  show ?thesis
  proof
    assume over: "2 ^ 1024 \<le> round_to_53_bits n"
    show "2 ^ 1024 - 2 ^ 970 \<le> n"
    proof (rule ccontr)
      assume "\<not> 2 ^ 1024 - 2 ^ 970 \<le> n"
      then have small: "n < 2 ^ 1024 - 2 ^ 970" by simp
      then have "n < 2 ^ (53 + 971)" by simp
      then have s971: "s \<le> 971"
        unfolding s_def by (rule round_shift_le)
      show False
      proof (cases "s = 971")
        case True
        from over v True have "2 ^ 1024 \<le> q' * 2 ^ 971" by simp
        then have "2 ^ 53 \<le> q'" by simp
        with q'_le q_up have q53: "q + 1 = 2 ^ 53" and up: "q' = q + 1" by simp_all
        from up have "2 ^ s \<le> 2 * r"
          by (auto simp: q'_def split: if_splits)
        with True have "2 ^ 970 \<le> r" by simp
        moreover from n True q53 have "n = (2 ^ 53 - 1) * 2 ^ 971 + r"
          by (metis add_diff_cancel_right')
        ultimately show False using small by simp
      next
        case False
        with s971 have "s \<le> 970" by simp
        then have "(2::nat) ^ s \<le> 2 ^ 970"
          by (intro power_increasing) simp_all
        moreover from q'_le q_up have "q' \<le> 2 ^ 53" by simp
        ultimately have "q' * 2 ^ s \<le> 2 ^ 53 * 2 ^ 970"
          by (rule mult_le_mono [rotated])
        with over v show False by simp
      qed
    qed
  next
    assume big: "2 ^ 1024 - 2 ^ 970 \<le> n"
    show "2 ^ 1024 \<le> round_to_53_bits n"
    proof (cases "972 \<le> s")
      case True
      then have "(2::nat) ^ 972 \<le> 2 ^ s"
        by (intro power_increasing) simp_all
      moreover from True have "0 < s" by simp
      then have "2 ^ 52 \<le> q" by (rule q_low)
      ultimately have "2 ^ 52 * 2 ^ 972 \<le> q * 2 ^ s"
        by (intro mult_le_mono)
      also have "\<dots> \<le> q' * 2 ^ s"
        using q'_ge by simp
      finally show ?thesis using v by simp
    next
      case False
      then have s971: "s \<le> 971" by simp
      have lt: "n < (q + 1) * 2 ^ s"
        using n r by simp
      have "s = 971"
      proof (rule ccontr)
        assume "s \<noteq> 971"
        with s971 have "s \<le> 970" by simp
        then have "(2::nat) ^ s \<le> 2 ^ 970"
          by (intro power_increasing) simp_all
        moreover from q_up have "q + 1 \<le> 2 ^ 53" by simp
        ultimately have "(q + 1) * 2 ^ s \<le> 2 ^ 53 * 2 ^ 970"
          by (rule mult_le_mono [rotated])
        with lt big show False by simp
      qed
      have q53: "q = 2 ^ 53 - 1"
      proof (rule ccontr)
        assume "q \<noteq> 2 ^ 53 - 1"
        with q_up have "q + 1 \<le> 2 ^ 53 - 1" by simp
        then have "(q + 1) * 2 ^ 971 \<le> (2 ^ 53 - 1) * 2 ^ 971"
          by (rule mult_le_mono1)
        with lt big \<open>s = 971\<close> show False by simp
      qed
      from n q53 \<open>s = 971\<close> have "n = (2 ^ 53 - 1) * 2 ^ 971 + r" by simp
      with big have "2 ^ 970 \<le> r" by simp
      then have "2 ^ s \<le> 2 * r" using \<open>s = 971\<close> by simp
      moreover have "odd q" using q53 by simp
      ultimately have "q' = q + 1"
        by (auto simp: q'_def)
      with q53 have "q' = 2 ^ 53" by simp
      with v \<open>s = 971\<close> show ?thesis by simp
    qed
  qed
qed

lemma units_loop_TB:
  "1024 ^ 4 \<le> x \<Longrightarrow> units_loop (x / 1024) [a, b, c] = format_1f (x / 1024 ^ 4) @ '' TB''"
  by simp

lemma float_of_int_nonneg: "0 \<le> i \<Longrightarrow> float_of_int i = float_of_nat (nat i)"
  by (simp add: float_of_int_def)

lemma float_of_nat_ok:
  "n < 2 ^ 1024 - 2 ^ 970 \<Longrightarrow> float_of_nat n = Inr (of_nat (round_to_53_bits n))"
  using round_to_53_bits_overflow [of n] by (simp add: float_of_nat_def Let_def)

lemma float_of_nat_overflow:
  "2 ^ 1024 - 2 ^ 970 \<le> n \<Longrightarrow> float_of_nat n = Inl OverflowError"
  using round_to_53_bits_overflow [of n] by (simp add: float_of_nat_def Let_def)

lemma format_file_size_TB:
  assumes "1024 ^ 4 \<le> n" and "n < 2 ^ 1024 - 2 ^ 970"
  shows "format_file_size n =
           Inr (format_1f (of_nat (round_to_53_bits (nat n)) / 1024 ^ 4) @ '' TB'')"
proof -
  from assms have n0: "0 \<le> n" "n \<noteq> 0" "\<not> n < 1024" by simp_all
  from assms have "nat n < 2 ^ 1024 - 2 ^ 970" by (simp add: nat_less_iff)
  then have fl: "float_of_int n = Inr (of_nat (round_to_53_bits (nat n)))"
    using n0 by (simp add: float_of_int_nonneg float_of_nat_ok)
  from assms have "2 ^ 40 \<le> nat n" by (simp add: le_nat_iff)
  then have "2 ^ 40 \<le> round_to_53_bits (nat n)"
    by (intro round_to_53_bits_ge) simp_all
  then have "(1024::rat) ^ 4 \<le> of_nat (round_to_53_bits (nat n))"
  proof -
    assume "2 ^ 40 \<le> round_to_53_bits (nat n)"
    then have "(of_nat (2 ^ 40) :: rat) \<le> of_nat (round_to_53_bits (nat n))"
      by (rule of_nat_mono)
    then show ?thesis by simp
  qed
  then have "units_loop (of_nat (round_to_53_bits (nat n)) / 1024) [''KB'', ''MB'', ''GB''] =
               format_1f (of_nat (round_to_53_bits (nat n)) / 1024 ^ 4) @ '' TB''"
    by (rule units_loop_TB)
  with fl n0 show ?thesis
    by (simp add: format_file_size_def)
qed

lemma format_file_size_overflow:
  assumes "2 ^ 1024 - 2 ^ 970 \<le> n"
  shows "format_file_size n = Inl OverflowError"
proof -
  from assms have n0: "0 \<le> n" "n \<noteq> 0" by simp_all
  from assms have "2 ^ 1024 - 2 ^ 970 \<le> nat n" by (simp add: le_nat_iff)
  then have "float_of_int n = Inl OverflowError"
    using n0 by (simp add: float_of_int_nonneg float_of_nat_overflow)
  with n0 show ?thesis
    by (simp add: format_file_size_def)
qed

lemma format_1f_5_5: "format_1f (11 / 2) = ''5.5''"
  by (simp add: format_1f_def round_half_even_def str_nat_digit digit_chars)

text \<open>
  Claim C4. The size-formatting function maps 0 to \<open>0 B\<close>, 1536 to \<open>1.5 KB\<close> and
  1048576 to \<open>1.0 MB\<close>, and it renders every value from \<open>1024 ^ 4\<close> on in the TB unit: the
  value, as the float that \<^verbatim>\<open>size_bytes /= 1024.0\<close> makes of it, is divided by 1024 once for
  each of the four smaller units and printed with one decimal place. That float is the
  value itself below \<open>2 ^ 53\<close> and the value rounded to 53 significant bits above. The
  statement covers every value that has a float, that is every value below
  \<open>2 ^ 1024 - 2 ^ 970\<close>; the sizes that the script passes are file sizes (below \<open>2 ^ 63\<close>)
  and sums of them.
\<close>

theorem format_file_size_units:
  "format_file_size 0 = Inr ''0 B'' \<and>
   format_file_size 1536 = Inr ''1.5 KB'' \<and>
   format_file_size 1048576 = Inr ''1.0 MB'' \<and>
   (\<forall>n. 1024 ^ 4 \<le> n \<and> n < 2 ^ 1024 - 2 ^ 970 \<longrightarrow>
        format_file_size n =
          Inr (format_1f (of_nat (round_to_53_bits (nat n)) / 1024 / 1024 / 1024 / 1024) @ '' TB'')) \<and>
   (\<forall>n. n < 2 ^ 53 \<longrightarrow> round_to_53_bits n = n)"
proof -
  have "format_file_size 0 = Inr ''0 B''"
    by (simp add: format_file_size_def)
  moreover have "format_file_size 1048576 = Inr ''1.0 MB''"
    using format_1024_2 by simp
  moreover have "\<forall>n. 1024 ^ 4 \<le> n \<and> n < 2 ^ 1024 - 2 ^ 970 \<longrightarrow>
        format_file_size n =
          Inr (format_1f (of_nat (round_to_53_bits (nat n)) / 1024 / 1024 / 1024 / 1024) @ '' TB'')"
  proof (intro allI impI)
    fix n :: int
    assume "1024 ^ 4 \<le> n \<and> n < 2 ^ 1024 - 2 ^ 970"
    then have "format_file_size n =
           Inr (format_1f (of_nat (round_to_53_bits (nat n)) / 1024 ^ 4) @ '' TB'')"
      by (simp add: format_file_size_TB)
    moreover have "(of_nat (round_to_53_bits (nat n)) :: rat) / 1024 ^ 4 =
                   of_nat (round_to_53_bits (nat n)) / 1024 / 1024 / 1024 / 1024"
      by simp
    ultimately show "format_file_size n =
          Inr (format_1f (of_nat (round_to_53_bits (nat n)) / 1024 / 1024 / 1024 / 1024) @ '' TB'')"
      by (simp only:)
  qed
  ultimately show ?thesis
    using format_1536 round_to_53_bits_small by blast
qed

theorem format_file_size_units_witness:
  "(1024::int) ^ 4 \<le> 6047313952768 \<and> (6047313952768::int) < 2 ^ 1024 - 2 ^ 970 \<and>
   format_file_size 6047313952768 = Inr ''5.5 TB'' \<and>
   round_to_53_bits 6047313952768 = 6047313952768"
proof -
  have tb: "format_file_size 6047313952768 =
              Inr (format_1f (of_nat (round_to_53_bits (nat 6047313952768))
                     / 1024 / 1024 / 1024 / 1024) @ '' TB'')"
    and small: "round_to_53_bits 6047313952768 = 6047313952768"
    using format_file_size_units by simp_all
  have "(of_nat (round_to_53_bits (nat 6047313952768)) / 1024 / 1024 / 1024 / 1024 :: rat) = 11 / 2"
    using small by simp
  with tb have "format_file_size 6047313952768 = Inr ''5.5 TB''"
    by (simp only: format_1f_5_5) simp
  with small show ?thesis by simp
qed

text \<open>
  Claim C10. Each exact power of 1024 from \<open>1024 ^ 1\<close> to \<open>1024 ^ 4\<close> is promoted to the
  larger unit and printed as \<open>1.0\<close> with that unit: 1024 is \<open>1.0 KB\<close> and not \<open>1024.0 B\<close>,
  and \<open>1024 ^ 4\<close> is \<open>1.0 TB\<close>. The comparison with 1024 is strict: 1023 stays in bytes,
  1024 does not.
\<close>

theorem powers_of_1024_promote:
  "format_file_size (1024 ^ 1) = Inr ''1.0 KB'' \<and>
   format_file_size (1024 ^ 2) = Inr ''1.0 MB'' \<and>
   format_file_size (1024 ^ 3) = Inr ''1.0 GB'' \<and>
   format_file_size (1024 ^ 4) = Inr ''1.0 TB'' \<and>
   format_file_size 1023 = Inr ''1023.0 B'' \<and>
   format_file_size 1024 \<noteq> Inr ''1024.0 B''"
  using format_1024 format_1024_2 format_1024_3 format_1024_4 format_1023 by simp

section \<open>The listing script: properties\<close>

lemma endswith_iff: "endswith s suffix \<longleftrightarrow> (\<exists>p. s = p @ suffix)"
proof
  assume "endswith s suffix"
  then have "s = take (length s - length suffix) s @ suffix"
    by (metis append_take_drop_id endswith_def)
  then show "\<exists>p. s = p @ suffix" ..
next
  assume "\<exists>p. s = p @ suffix"
  then show "endswith s suffix"
    by (auto simp: endswith_def)
qed

lemma report_files_out:
  "report_files files w =
     w\<lparr>out := out w @ map (\<lambda>f. ''  '' @ check_mark @ '' '' @ f)
                        (filter (\<lambda>f. endswith f ''.gguf'') files)\<rparr>"
  by (induction files arbitrary: w) (simp_all add: print_def)

lemma list_repo_ok:
  assumes "list_repo_files (remote w) repo = (Inr files, r')"
  shows "list_repo list_repo_files repo w =
           w\<lparr>remote := r',
             out := out w @ [newline @ file_folder @ '' Files in '' @ repo @ '':''] @
                    map (\<lambda>f. ''  '' @ check_mark @ '' '' @ f)
                        (filter (\<lambda>f. endswith f ''.gguf'') files)\<rparr>"
  using assms by (simp add: list_repo_def Let_def print_def report_files_out)

lemma list_repo_error:
  assumes "list_repo_files (remote w) repo = (Inl e, r')"
  shows "list_repo list_repo_files repo w =
           w\<lparr>remote := r',
             out := out w @ [newline @ file_folder @ '' Files in '' @ repo @ '':'',
                             ''  '' @ cross_mark @ '' Error: '' @ str_exn e]\<rparr>"
  using assms by (simp add: list_repo_def Let_def print_def)

lemma list_repo_out_grows:
  "\<exists>more. out (list_repo list_repo_files repo w) =
            out w @ [newline @ file_folder @ '' Files in '' @ repo @ '':''] @ more"
proof (cases "list_repo_files (remote w) repo")
  case (Pair result r')
  then show ?thesis
    by (cases result) (simp_all add: list_repo_error list_repo_ok)
qed

lemma list_files_out_grows:
  "\<exists>more. out (list_files list_repo_files rs w) = out w @ more"
proof (induction rs arbitrary: w)
  case Nil
  then show ?case by simp
next
  case (Cons r rs)
  obtain m1 where m1: "out (list_repo list_repo_files r w) =
      out w @ [newline @ file_folder @ '' Files in '' @ r @ '':''] @ m1"
    using list_repo_out_grows by blast
  obtain m2 where "out (list_files list_repo_files rs (list_repo list_repo_files r w)) =
      out (list_repo list_repo_files r w) @ m2"
    using Cons.IH by blast
  with m1 show ?case by simp
qed

lemma list_files_headers:
  "repo \<in> set rs \<Longrightarrow>
   newline @ file_folder @ '' Files in '' @ repo @ '':''
     \<in> set (out (list_files list_repo_files rs w))"
proof (induction rs arbitrary: w)
  case Nil
  then show ?case by simp
next
  case (Cons r rs)
  show ?case
  proof (cases "repo = r")
    case True
    obtain m1 where m1: "out (list_repo list_repo_files r w) =
        out w @ [newline @ file_folder @ '' Files in '' @ r @ '':''] @ m1"
      using list_repo_out_grows by blast
    obtain m2 where "out (list_files list_repo_files rs (list_repo list_repo_files r w)) =
        out (list_repo list_repo_files r w) @ m2"
      using list_files_out_grows by blast
    with m1 True show ?thesis by simp
  next
    case False
    with Cons.prems have "repo \<in> set rs" by simp
    then show ?thesis using Cons.IH by simp
  qed
qed

lemma gguf_example:
  "filter (\<lambda>f. endswith f ''.gguf'') [''a.gguf'', ''b.txt'', ''c.GGUF''] = [''a.gguf'']"
  by (simp add: endswith_def)

text \<open>
  Claim C6. Whatever filenames the listing service returns for a repository, the script
  prints, after the header line and in the order received, one line for exactly those
  filenames that end with the lower-case suffix \<open>.gguf\<close>; the match is case-sensitive.
  From \<open>a.gguf\<close>, \<open>b.txt\<close>, \<open>c.GGUF\<close> only \<open>a.gguf\<close> is reported.
\<close>

theorem listing_reports_gguf_suffix:
  assumes "list_repo_files (remote w) repo = (Inr files, r')"
  shows "out (list_repo list_repo_files repo w) =
           out w @ [newline @ file_folder @ '' Files in '' @ repo @ '':''] @
           map (\<lambda>f. ''  '' @ check_mark @ '' '' @ f)
               (filter (\<lambda>f. \<exists>p. f = p @ ''.gguf'') files)
         \<and> filter (\<lambda>f. \<exists>p. f = p @ ''.gguf'') [''a.gguf'', ''b.txt'', ''c.GGUF''] = [''a.gguf'']"
proof -
  have eq: "(\<lambda>f. endswith f ''.gguf'') = (\<lambda>f. \<exists>p. f = p @ ''.gguf'')"
    by (rule ext) (rule endswith_iff)
  have "list_repo list_repo_files repo w =
           w\<lparr>remote := r',
             out := out w @ [newline @ file_folder @ '' Files in '' @ repo @ '':''] @
                    map (\<lambda>f. ''  '' @ check_mark @ '' '' @ f)
                        (filter (\<lambda>f. endswith f ''.gguf'') files)\<rparr>"
    using assms by (rule list_repo_ok)
  then show ?thesis
    using gguf_example unfolding eq by simp
qed

theorem listing_reports_gguf_suffix_witness:
  "flaky_listing (remote blank_world) ''org/repo'' = (Inr [''a.gguf'', ''b.txt'', ''c.GGUF''], ()) \<and>
   out (list_repo flaky_listing ''org/repo'' blank_world) =
     [newline @ file_folder @ '' Files in org/repo:'', ''  '' @ check_mark @ '' a.gguf'']"
proof -
  have h: "flaky_listing (remote blank_world) ''org/repo'' =
             (Inr [''a.gguf'', ''b.txt'', ''c.GGUF''], ())"
    by (simp add: flaky_listing_def)
  then show ?thesis
    using listing_reports_gguf_suffix [of flaky_listing blank_world "''org/repo''"
        "[''a.gguf'', ''b.txt'', ''c.GGUF'']" "()"]
    by (simp add: blank_world_def)
qed

text \<open>
  Claim C7. When the listing of one repository raises, the script catches the error for
  that repository alone: it prints the header and one diagnostic line with the error's
  text, raises nothing, and goes on with the remaining repositories, each of which gets its
  header printed.
\<close>

theorem listing_failure_is_local:
  assumes "list_repo_files (remote w) repo = (Inl e, r')"
  shows "list_files list_repo_files (repo # rest) w =
           list_files list_repo_files rest
             (w\<lparr>remote := r',
                out := out w @ [newline @ file_folder @ '' Files in '' @ repo @ '':'',
                                ''  '' @ cross_mark @ '' Error: '' @ str_exn e]\<rparr>)
         \<and> (\<forall>r \<in> set rest. newline @ file_folder @ '' Files in '' @ r @ '':''
               \<in> set (out (list_files list_repo_files (repo # rest) w)))"
proof -
  have "list_repo list_repo_files repo w =
          w\<lparr>remote := r',
            out := out w @ [newline @ file_folder @ '' Files in '' @ repo @ '':'',
                            ''  '' @ cross_mark @ '' Error: '' @ str_exn e]\<rparr>"
    using assms by (rule list_repo_error)
  then have first: "list_files list_repo_files (repo # rest) w =
           list_files list_repo_files rest
             (w\<lparr>remote := r',
                out := out w @ [newline @ file_folder @ '' Files in '' @ repo @ '':'',
                                ''  '' @ cross_mark @ '' Error: '' @ str_exn e]\<rparr>)"
    by simp
  have rest: "\<forall>r \<in> set rest. newline @ file_folder @ '' Files in '' @ r @ '':''
               \<in> set (out (list_files list_repo_files (repo # rest) w))"
  proof
    fix r
    assume "r \<in> set rest"
    then have "r \<in> set (repo # rest)" by simp
    then show "newline @ file_folder @ '' Files in '' @ r @ '':''
               \<in> set (out (list_files list_repo_files (repo # rest) w))"
      by (rule list_files_headers)
  qed
  from first rest show ?thesis ..
qed

theorem listing_failure_is_local_witness:
  "flaky_listing (remote blank_world) ''org/broken'' = (Inl (ServiceError ''404 Not Found''), ()) \<and>
   out (list_files flaky_listing [''org/broken'', ''org/repo''] blank_world) =
     [newline @ file_folder @ '' Files in org/broken:'',
      ''  '' @ cross_mark @ '' Error: 404 Not Found'',
      newline @ file_folder @ '' Files in org/repo:'',
      ''  '' @ check_mark @ '' a.gguf'']"
proof -
  let ?w1 = "blank_world\<lparr>remote := (),
               out := out blank_world @
                 [newline @ file_folder @ '' Files in '' @ ''org/broken'' @ '':'',
                  ''  '' @ cross_mark @ '' Error: '' @ str_exn (ServiceError ''404 Not Found'')]\<rparr>"
  have h: "flaky_listing (remote blank_world) ''org/broken'' =
             (Inl (ServiceError ''404 Not Found''), ())"
    by (simp add: flaky_listing_def)
  have step: "list_files flaky_listing [''org/broken'', ''org/repo''] blank_world =
                list_files flaky_listing [''org/repo''] ?w1"
    using h listing_failure_is_local [of flaky_listing blank_world "''org/broken''"
        "ServiceError ''404 Not Found''" "()" "[''org/repo'']"]
    by blast
  have ok: "flaky_listing (remote ?w1) ''org/repo'' = (Inr [''a.gguf'', ''b.txt'', ''c.GGUF''], ())"
    by (simp add: flaky_listing_def)
  have "list_repo flaky_listing ''org/repo'' ?w1 =
          ?w1\<lparr>remote := (),
               out := out ?w1 @ [newline @ file_folder @ '' Files in '' @ ''org/repo'' @ '':''] @
                      map (\<lambda>f. ''  '' @ check_mark @ '' '' @ f)
                          (filter (\<lambda>f. endswith f ''.gguf'') [''a.gguf'', ''b.txt'', ''c.GGUF''])\<rparr>"
    using ok by (rule list_repo_ok)
  then have "out (list_repo flaky_listing ''org/repo'' ?w1) =
     [newline @ file_folder @ '' Files in org/broken:'',
      ''  '' @ cross_mark @ '' Error: 404 Not Found'',
      newline @ file_folder @ '' Files in org/repo:'',
      ''  '' @ check_mark @ '' a.gguf'']"
    by (simp add: blank_world_def endswith_def)
  with step h show ?thesis
    by simp
qed

section \<open>The filesystem: properties\<close>

lemma split_slash_nonempty: "split_slash s \<noteq> []"
  by (induction s) (auto split: list.splits)

lemma split_slash_append:
  "split_slash (a @ CHR ''/'' # b) = split_slash a @ split_slash b"
proof (induction a)
  case Nil
  show ?case by simp
next
  case (Cons c a)
  obtain x xs where "split_slash a = x # xs"
    using split_slash_nonempty [of a] by (cases "split_slash a") auto
  with Cons show ?case by simp
qed

lemma walk_Inr_Cons:
  "walk ns cur (c # cs) = Inr loc \<Longrightarrow> \<exists>sz. ns cur = Some (Dir sz)"
  by (auto split: option.splits node.splits)

lemma walk_append:
  "walk ns cur (xs @ ys) = Inr loc \<Longrightarrow>
   \<exists>mid. walk ns cur xs = Inr mid \<and> walk ns mid ys = Inr loc"
  by (induction xs arbitrary: cur) (auto split: option.splits node.splits if_splits)

lemma walk_map_le:
  "ns \<subseteq>\<^sub>m ns' \<Longrightarrow> walk ns cur cs = Inr loc \<Longrightarrow> walk ns' cur cs = Inr loc"
proof (induction cs arbitrary: cur)
  case Nil
  then show ?case by simp
next
  case (Cons c cs)
  from Cons.prems(2) obtain sz where d: "ns cur = Some (Dir sz)"
    using walk_Inr_Cons by blast
  with Cons.prems(1) have d': "ns' cur = Some (Dir sz)"
    by (metis domI map_le_def)
  from Cons.prems(2) d Cons.IH [OF Cons.prems(1)] d' show ?case
    by (auto split: if_splits)
qed

lemma walk_filter:
  "walk ns cur cs = Inr mid \<Longrightarrow>
   walk ns cur (filter (\<lambda>c. c \<noteq> [] \<and> c \<noteq> ''.'') cs) = Inr mid"
proof (induction cs arbitrary: cur)
  case Nil
  then show ?case by simp
next
  case (Cons c cs)
  from Cons.prems obtain sz where d: "ns cur = Some (Dir sz)"
    using walk_Inr_Cons by blast
  with Cons show ?case
    by (auto split: if_splits)
qed

lemma walk_trivial:
  "filter (\<lambda>c. c \<noteq> [] \<and> c \<noteq> ''.'') cs = [] \<Longrightarrow> walk ns cur cs = Inr mid \<Longrightarrow> mid = cur"
proof (induction cs arbitrary: cur)
  case Nil
  then show ?case by simp
next
  case (Cons c cs)
  from Cons.prems(2) obtain sz where d: "ns cur = Some (Dir sz)"
    using walk_Inr_Cons by blast
  with Cons show ?case
    by (auto split: if_splits)
qed

text \<open>If walking the raw components reaches a directory, so does the pathlib path.\<close>

lemma path_is_dir_of_walk:
  assumes "walk (nodes fs) (if is_abs p then [] else cwd fs) cs = Inr mid"
    and "nodes fs mid = Some (Dir sz)"
    and "parts p = filter (\<lambda>c. c \<noteq> [] \<and> c \<noteq> ''.'') cs"
  shows "path_is_dir fs p"
proof (cases "parts p = []")
  case True
  with assms(3) have "filter (\<lambda>c. c \<noteq> [] \<and> c \<noteq> ''.'') cs = []"
    by simp
  then have "mid = (if is_abs p then [] else cwd fs)"
    using assms(1) by (rule walk_trivial)
  with assms(2) True show ?thesis
    by (simp add: path_is_dir_def path_walk_def)
next
  case False
  from assms(1) have "walk (nodes fs) (if is_abs p then [] else cwd fs) (parts p) = Inr mid"
    unfolding assms(3) by (rule walk_filter)
  with assms(2) False show ?thesis
    by (simp add: path_is_dir_def path_walk_def)
qed

lemma join_empty_dir: "f = [] \<or> hd f \<noteq> CHR ''/'' \<Longrightarrow> os_path_join [] f = f"
  by (auto simp: os_path_join_def)

lemma join_relative:
  assumes "d \<noteq> []" and "f = [] \<or> hd f \<noteq> CHR ''/''"
  shows "os_path_join d f = (if last d = CHR ''/'' then butlast d else d) @ CHR ''/'' # f"
proof (cases "last d = CHR ''/''")
  case True
  with assms(1) have "butlast d @ ''/'' = d"
    using append_butlast_last_id [of d] by simp
  then have "d @ f = butlast d @ CHR ''/'' # f"
    by (metis append.assoc append_Cons append_Nil)
  with True assms show ?thesis
    by (auto simp: os_path_join_def)
next
  case False
  with assms show ?thesis
    by (auto simp: os_path_join_def)
qed

lemma hd_join_relative:
  "d \<noteq> [] \<Longrightarrow> f = [] \<or> hd f \<noteq> CHR ''/'' \<Longrightarrow> hd (os_path_join d f) = hd d"
  by (auto simp: os_path_join_def)

lemma Path_parts_strip:
  assumes "d \<noteq> []"
  shows "parts (Path d) =
     filter (\<lambda>c. c \<noteq> [] \<and> c \<noteq> ''.'')
       (split_slash (if last d = CHR ''/'' then butlast d else d))"
proof (cases "last d = CHR ''/''")
  case True
  with assms have "d = butlast d @ CHR ''/'' # []"
    using append_butlast_last_id [of d] by simp
  then have "split_slash d = split_slash (butlast d) @ split_slash []"
    using split_slash_append [of "butlast d" "[]"] by simp
  with True show ?thesis
    by (simp add: Path_def)
next
  case False
  then show ?thesis
    by (simp add: Path_def)
qed

lemma exists_resolves:
  assumes "os_path_exists fs t"
  shows "\<exists>loc. t \<noteq> [] \<and>
           walk (nodes fs) (if hd t = CHR ''/'' then [] else cwd fs) (split_slash t) = Inr loc"
proof -
  from assms obtain n where "os_stat fs t = Inr n"
    by (cases "os_stat fs t") (simp_all add: os_path_exists_def)
  then obtain loc where "resolve fs t = Inr loc"
    by (cases "resolve fs t") (simp_all add: os_stat_def)
  then show ?thesis
    by (simp add: resolve_def split: if_splits)
qed

lemma walk_split_slash_dir:
  assumes "walk ns cur (split_slash f) = Inr loc"
  shows "\<exists>sz. ns cur = Some (Dir sz)"
proof -
  obtain c cs where "split_slash f = c # cs"
    using split_slash_nonempty [of f] by (cases "split_slash f") simp_all
  with assms have "walk ns cur (c # cs) = Inr loc" by simp
  then show ?thesis by (rule walk_Inr_Cons)
qed

lemma exists_join_is_dir:
  assumes ex: "os_path_exists fs (os_path_join d f)"
    and rel: "f = [] \<or> hd f \<noteq> CHR ''/''"
  shows "path_is_dir fs (Path d)"
proof (cases "d = []")
  case True
  with rel have tf: "os_path_join d f = f"
    by (simp add: join_empty_dir)
  from ex obtain loc where f: "f \<noteq> []"
    and w: "walk (nodes fs) (if hd f = CHR ''/'' then [] else cwd fs) (split_slash f) = Inr loc"
    unfolding tf using exists_resolves by blast
  from f rel have "hd f \<noteq> CHR ''/''" by simp
  with w have "walk (nodes fs) (cwd fs) (split_slash f) = Inr loc" by simp
  then obtain sz where "nodes fs (cwd fs) = Some (Dir sz)"
    using walk_split_slash_dir by blast
  with True show ?thesis
    by (simp add: path_is_dir_def path_walk_def Path_def)
next
  case False
  define d' where "d' = (if last d = CHR ''/'' then butlast d else d)"
  have tj: "os_path_join d f = d' @ CHR ''/'' # f"
    unfolding d'_def using False rel by (rule join_relative)
  have hd_t: "hd (os_path_join d f) = hd d"
    using False rel by (rule hd_join_relative)
  have sp: "split_slash (os_path_join d f) = split_slash d' @ split_slash f"
    unfolding tj by (rule split_slash_append)
  from ex obtain loc where
    "walk (nodes fs) (if hd (os_path_join d f) = CHR ''/'' then [] else cwd fs)
       (split_slash (os_path_join d f)) = Inr loc"
    using exists_resolves by blast
  then have "walk (nodes fs) (if hd d = CHR ''/'' then [] else cwd fs)
       (split_slash d' @ split_slash f) = Inr loc"
    by (simp only: sp hd_t)
  then obtain mid where
    m1: "walk (nodes fs) (if hd d = CHR ''/'' then [] else cwd fs) (split_slash d') = Inr mid"
    and m2: "walk (nodes fs) mid (split_slash f) = Inr loc"
    using walk_append by blast
  from m2 obtain sz where dir: "nodes fs mid = Some (Dir sz)"
    using walk_split_slash_dir by blast
  have parts: "parts (Path d) = filter (\<lambda>c. c \<noteq> [] \<and> c \<noteq> ''.'') (split_slash d')"
    unfolding d'_def using False by (rule Path_parts_strip)
  have "is_abs (Path d) = (hd d = CHR ''/'')"
    using False by (simp add: Path_def)
  with m1 have "walk (nodes fs) (if is_abs (Path d) then [] else cwd fs) (split_slash d') = Inr mid"
    by simp
  then show ?thesis using dir parts by (rule path_is_dir_of_walk)
qed

lemma path_mkdir_existing:
  assumes "path_is_dir fs p"
  shows "path_mkdir parents True p fs = Inr fs"
proof -
  from assms have "os_mkdir fs p = Inl FileExistsError"
    by (auto simp: path_is_dir_def os_mkdir_def split: sum.splits option.splits)
  with assms show ?thesis
    by (simp add: path_mkdir.simps [of parents True p fs])
qed

lemma os_mkdir_is_dir:
  assumes "os_mkdir fs p = Inr fs'"
  shows "path_is_dir fs' p"
proof -
  from assms obtain loc where w: "path_walk fs p = Inr loc" and free: "nodes fs loc = None"
    and fs': "fs' = fs\<lparr>nodes := (nodes fs)(loc \<mapsto> Dir (dir_size fs))\<rparr>"
    by (auto simp: os_mkdir_def split: sum.splits option.splits)
  from free have le: "nodes fs \<subseteq>\<^sub>m nodes fs'"
    by (auto simp: fs' map_le_def)
  from w have "walk (nodes fs) (if is_abs p then [] else cwd fs)
                 (if parts p = [] then [''.''] else parts p) = Inr loc"
    by (simp add: path_walk_def)
  with le have "walk (nodes fs') (if is_abs p then [] else cwd fs)
                 (if parts p = [] then [''.''] else parts p) = Inr loc"
    by (rule walk_map_le)
  moreover have "cwd fs' = cwd fs"
    by (simp add: fs')
  ultimately have "path_walk fs' p = Inr loc"
    unfolding path_walk_def by (simp only:)
  moreover have "nodes fs' loc = Some (Dir (dir_size fs))"
    by (simp add: fs')
  ultimately show ?thesis
    by (simp add: path_is_dir_def)
qed

lemma path_mkdir_is_dir:
  "path_mkdir parents exist_ok p fs = Inr fs' \<Longrightarrow> path_is_dir fs' p"
proof (induction parents exist_ok p fs arbitrary: fs' rule: path_mkdir.induct)
  case (1 parents exist_ok p fs)
  show ?case
  proof (cases "os_mkdir fs p")
    case (Inr fs1)
    with "1.prems" have "fs' = fs1"
      by (simp add: path_mkdir.simps [of parents exist_ok p fs])
    with Inr show ?thesis by (simp add: os_mkdir_is_dir)
  next
    case (Inl e)
    show ?thesis
    proof (cases "e = FileNotFoundError")
      case True
      with Inl "1.prems" have go: "\<not> (\<not> parents \<or> parent p = p)"
        by (auto simp: path_mkdir.simps [of parents exist_ok p fs] split: if_splits)
      with Inl True "1.prems" obtain fs1 where
        a: "path_mkdir True True (parent p) fs = Inr fs1"
        and b: "path_mkdir False exist_ok p fs1 = Inr fs'"
        by (auto simp: path_mkdir.simps [of parents exist_ok p fs] split: sum.splits)
      from "1.IH"(2) [OF Inl True go a b] show ?thesis .
    next
      case False
      with Inl "1.prems" show ?thesis
        by (cases e) (auto simp: path_mkdir.simps [of parents exist_ok p fs] split: if_splits)
    qed
  qed
qed

section \<open>The download script: properties\<close>

lemma getsize_bounds:
  "os_path_getsize fsys p = Inr sz \<Longrightarrow> 0 \<le> sz \<and> sz < 2 ^ 63"
  using uint_lt2p [where 'a = 63]
  by (auto simp: os_path_getsize_def split: sum.splits)

lemma exists_getsize:
  "os_path_exists fsys p \<Longrightarrow> \<exists>sz. os_path_getsize fsys p = Inr sz"
  by (auto simp: os_path_exists_def os_path_getsize_def split: sum.splits)

lemma not_exists_getsize:
  "\<not> os_path_exists fsys p \<Longrightarrow> \<exists>e. os_path_getsize fsys p = Inl e"
  by (auto simp: os_path_exists_def os_path_getsize_def split: sum.splits)

lemma format_file_size_total:
  assumes "0 \<le> n" and "n < 2 ^ 1024 - 2 ^ 970"
  shows "\<exists>s. format_file_size n = Inr s"
proof -
  from assms have "nat n < 2 ^ 1024 - 2 ^ 970" by (simp add: nat_less_iff)
  then have "float_of_int n = Inr (of_nat (round_to_53_bits (nat n)))"
    using assms(1) by (simp add: float_of_int_nonneg float_of_nat_ok)
  then show ?thesis
    by (simp add: format_file_size_def)
qed

lemma format_file_size_of_getsize:
  assumes "os_path_getsize fsys p = Inr sz"
  shows "\<exists>s. format_file_size sz = Inr s"
proof -
  from assms have "0 \<le> sz" and "sz < 2 ^ 63"
    using getsize_bounds by blast+
  then show ?thesis
    by (intro format_file_size_total) simp_all
qed

lemma print_fields [simp]:
  "disk (print l w) = disk w" "remote (print l w) = remote w"
  "fetch_log (print l w) = fetch_log w" "out (print l w) = out w @ [l]"
  by (simp_all add: print_def)

lemma download_checked_existing:
  assumes "os_path_exists (disk w) (os_path_join (local_dir t) (filename t))"
  shows "\<exists>sz s w2. os_path_getsize (disk w) (os_path_join (local_dir t) (filename t)) = Inr sz \<and>
           format_file_size sz = Inr s \<and>
           download_checked hf t w = Inr (True, w2) \<and>
           disk w2 = disk w \<and> remote w2 = remote w \<and> fetch_log w2 = fetch_log w \<and>
           out w2 = out w @ [check_mark @ '' File already exists: '' @
                               os_path_join (local_dir t) (filename t),
                             ''  Size: '' @ s]"
proof -
  let ?target = "os_path_join (local_dir t) (filename t)"
  from exists_getsize [OF assms] obtain sz where sz: "os_path_getsize (disk w) ?target = Inr sz" ..
  from format_file_size_of_getsize [OF sz] obtain s where s: "format_file_size sz = Inr s" ..
  let ?w2 = "print (''  Size: '' @ s) (print (check_mark @ '' File already exists: '' @ ?target) w)"
  from assms sz s have "download_checked hf t w = Inr (True, ?w2)"
    by (simp add: download_checked_def file_exists_def Let_def)
  moreover have "disk ?w2 = disk w" "remote ?w2 = remote w" "fetch_log ?w2 = fetch_log w"
    "out ?w2 = out w @ [check_mark @ '' File already exists: '' @ ?target, ''  Size: '' @ s]"
    by simp_all
  ultimately show ?thesis
    using sz s by (intro exI conjI)
qed

lemma download_checked_missing:
  assumes "\<not> os_path_exists (disk w) (os_path_join (local_dir t) (filename t))"
  shows "download_checked hf t w = Inr (try_download hf t w)"
  using assms by (simp add: download_checked_def file_exists_def Let_def)

lemma try_download_raises:
  assumes "hf (remote w) (disk w) (repo_id t) (filename t) (local_dir t) = (Inl e, r', fs2)"
  shows "\<exists>w2. try_download hf t w = (False, w2) \<and> disk w2 = fs2 \<and> remote w2 = r' \<and>
           fetch_log w2 = fetch_log w @ [(repo_id t, filename t, local_dir t)] \<and>
           out w2 = out w @ [''   Downloading... (this may take a while)'',
                             cross_mark @ '' Error downloading '' @ filename t @ '': '' @ str_exn e]"
proof -
  let ?w2 = "w\<lparr>disk := fs2, remote := r',
              fetch_log := fetch_log w @ [(repo_id t, filename t, local_dir t)],
              out := out w @ [''   Downloading... (this may take a while)'',
                              cross_mark @ '' Error downloading '' @ filename t @ '': '' @ str_exn e]\<rparr>"
  from assms have "try_download hf t w = (False, ?w2)"
    by (simp add: try_download_def Let_def print_def download_error_def)
  moreover have "disk ?w2 = fs2" "remote ?w2 = r'"
    "fetch_log ?w2 = fetch_log w @ [(repo_id t, filename t, local_dir t)]"
    "out ?w2 = out w @ [''   Downloading... (this may take a while)'',
                        cross_mark @ '' Error downloading '' @ filename t @ '': '' @ str_exn e]"
    by simp_all
  ultimately show ?thesis
    by (intro exI conjI)
qed

lemma try_download_file_missing:
  assumes "hf (remote w) (disk w) (repo_id t) (filename t) (local_dir t) = (Inr p, r', fs2)"
    and "\<not> os_path_exists fs2 p"
  shows "\<exists>w2. try_download hf t w = (False, w2) \<and> disk w2 = fs2 \<and> remote w2 = r' \<and>
           fetch_log w2 = fetch_log w @ [(repo_id t, filename t, local_dir t)] \<and>
           out w2 = out w @ [''   Downloading... (this may take a while)'',
                             cross_mark @ '' Download failed: File not found at '' @ p]"
proof -
  let ?w2 = "w\<lparr>disk := fs2, remote := r',
              fetch_log := fetch_log w @ [(repo_id t, filename t, local_dir t)],
              out := out w @ [''   Downloading... (this may take a while)'',
                              cross_mark @ '' Download failed: File not found at '' @ p]\<rparr>"
  from assms have "try_download hf t w = (False, ?w2)"
    by (simp add: try_download_def Let_def print_def)
  moreover have "disk ?w2 = fs2" "remote ?w2 = r'"
    "fetch_log ?w2 = fetch_log w @ [(repo_id t, filename t, local_dir t)]"
    "out ?w2 = out w @ [''   Downloading... (this may take a while)'',
                        cross_mark @ '' Download failed: File not found at '' @ p]"
    by simp_all
  ultimately show ?thesis
    by (intro exI conjI)
qed

lemma try_download_ok:
  assumes "hf (remote w) (disk w) (repo_id t) (filename t) (local_dir t) = (Inr p, r', fs2)"
    and "os_path_exists fs2 p"
  shows "\<exists>sz s w2. os_path_getsize fs2 p = Inr sz \<and> format_file_size sz = Inr s \<and>
           try_download hf t w = (True, w2) \<and> disk w2 = fs2 \<and> remote w2 = r' \<and>
           fetch_log w2 = fetch_log w @ [(repo_id t, filename t, local_dir t)] \<and>
           out w2 = out w @ [''   Downloading... (this may take a while)'',
                             check_mark @ '' Successfully downloaded: '' @ p,
                             ''  Size: '' @ s]"
proof -
  from exists_getsize [OF assms(2)] obtain sz where sz: "os_path_getsize fs2 p = Inr sz" ..
  from format_file_size_of_getsize [OF sz] obtain s where s: "format_file_size sz = Inr s" ..
  let ?w2 = "w\<lparr>disk := fs2, remote := r',
              fetch_log := fetch_log w @ [(repo_id t, filename t, local_dir t)],
              out := out w @ [''   Downloading... (this may take a while)'',
                              check_mark @ '' Successfully downloaded: '' @ p,
                              ''  Size: '' @ s]\<rparr>"
  from assms sz s have "try_download hf t w = (True, ?w2)"
    by (simp add: try_download_def Let_def print_def)
  moreover have "disk ?w2 = fs2" "remote ?w2 = r'"
    "fetch_log ?w2 = fetch_log w @ [(repo_id t, filename t, local_dir t)]"
    "out ?w2 = out w @ [''   Downloading... (this may take a while)'',
                        check_mark @ '' Successfully downloaded: '' @ p,
                        ''  Size: '' @ s]"
    by simp_all
  ultimately show ?thesis
    using sz s by (intro exI conjI)
qed

lemma checked_world_fields [simp]:
  "disk (checked_world t fs1 w) = fs1" "remote (checked_world t fs1 w) = remote w"
  "fetch_log (checked_world t fs1 w) = fetch_log w"
  by (simp_all add: checked_world_def)

lemma download_model_mkdir_fails:
  "path_mkdir True True (Path (local_dir t)) (disk w) = Inl e \<Longrightarrow> download_model hf t w = Inl e"
  by (simp add: download_model_def create_directory_def Let_def)

lemma download_model_mkdir_ok:
  "path_mkdir True True (Path (local_dir t)) (disk w) = Inr fs1 \<Longrightarrow>
   download_model hf t w = download_checked hf t (checked_world t fs1 w)"
  by (simp add: download_model_def create_directory_def Let_def print_def checked_world_def)

lemma size_or_zero_bounds: "0 \<le> size_or_zero fsys p \<and> size_or_zero fsys p < 2 ^ 63"
  using getsize_bounds [of fsys p]
  by (cases "os_path_getsize fsys p") (simp_all add: size_or_zero_def)

lemma main_step_raises:
  "download_model hf t (print (step_header n i t) w) = Inl e \<Longrightarrow>
   main_step hf n i t (c, tot) w = Inl e"
  by (simp add: main_step_def step_header_def Let_def)

lemma main_step_false:
  "download_model hf t (print (step_header n i t) w) = Inr (False, w2) \<Longrightarrow>
   main_step hf n i t (c, tot) w =
     Inr ((c, tot), print (cross_mark @ '' Failed to download '' @ filename t) w2)"
  by (simp add: main_step_def step_header_def Let_def)

lemma main_step_true:
  assumes "download_model hf t (print (step_header n i t) w) = Inr (True, w2)"
  shows "main_step hf n i t (c, tot) w =
     Inr ((c + 1, tot + size_or_zero (disk w2) (os_path_join (local_dir t) (filename t))), w2)"
proof (cases "os_path_exists (disk w2) (os_path_join (local_dir t) (filename t))")
  case True
  then obtain sz where "os_path_getsize (disk w2) (os_path_join (local_dir t) (filename t)) = Inr sz"
    using exists_getsize by blast
  with True assms show ?thesis
    by (simp add: main_step_def step_header_def Let_def size_or_zero_def)
next
  case False
  then obtain e where "os_path_getsize (disk w2) (os_path_join (local_dir t) (filename t)) = Inl e"
    using not_exists_getsize by blast
  with False assms show ?thesis
    by (simp add: main_step_def step_header_def Let_def size_or_zero_def)
qed

lemma main_step_cases:
  assumes "main_step hf n i t (c, tot) w = Inr ((c', tot'), w')"
  shows "(c' = c \<and> tot' = tot) \<or>
         (c' = c + 1 \<and> tot' = tot + size_or_zero (disk w') (os_path_join (local_dir t) (filename t)))"
proof (cases "download_model hf t (print (step_header n i t) w)")
  case (Inl e)
  with assms show ?thesis by (simp add: main_step_raises)
next
  case (Inr r)
  obtain ok w2 where r: "r = (ok, w2)" by (cases r)
  show ?thesis
  proof (cases ok)
    case True
    with Inr r assms show ?thesis by (auto simp: main_step_true)
  next
    case False
    with Inr r assms show ?thesis by (auto simp: main_step_false)
  qed
qed

lemma main_step_invariant:
  assumes "main_step hf n i t (c, tot) w = Inr ((c', tot'), w')"
  shows "c \<le> c' \<and> c' \<le> c + 1 \<and> tot \<le> tot' \<and> tot' < tot + 2 ^ 63"
  using main_step_cases [OF assms]
    size_or_zero_bounds [of "disk w'" "os_path_join (local_dir t) (filename t)"]
  by auto

lemma main_loop_append:
  "main_loop hf n i (xs @ ys) cs w =
     (case main_loop hf n i xs cs w of
        Inl e \<Rightarrow> Inl e
      | Inr (cs', w') \<Rightarrow> main_loop hf n (i + length xs) ys cs' w')"
  by (induction xs arbitrary: i cs w) (auto split: sum.splits)

lemma main_loop_invariant:
  "main_loop hf n i xs (c, tot) w = Inr ((c', tot'), w') \<Longrightarrow>
   c \<le> c' \<and> c' \<le> c + int (length xs) \<and> tot \<le> tot' \<and>
   tot' \<le> tot + int (length xs) * (2 ^ 63 - 1)"
proof (induction xs arbitrary: i c tot w)
  case Nil
  then show ?case by simp
next
  case (Cons t xs)
  from Cons.prems obtain c1 tot1 w1 where
    st: "main_step hf n i t (c, tot) w = Inr ((c1, tot1), w1)"
    and rest: "main_loop hf n (i + 1) xs (c1, tot1) w1 = Inr ((c', tot'), w')"
    by (auto split: sum.splits)
  from main_step_invariant [OF st] Cons.IH [OF rest] show ?case
    by (auto simp: algebra_simps)
qed

subsection \<open>One step of the loop\<close>


lemma main_step_existing:
  assumes ex: "os_path_exists (disk w) (os_path_join (local_dir t) (filename t))"
    and rel: "filename t = [] \<or> hd (filename t) \<noteq> CHR ''/''"
  shows "\<exists>sz w'. os_path_getsize (disk w) (os_path_join (local_dir t) (filename t)) = Inr sz \<and>
           main_step hf n i t (c, tot) w = Inr ((c + 1, tot + sz), w') \<and>
           disk w' = disk w \<and> remote w' = remote w \<and> fetch_log w' = fetch_log w \<and>
           check_mark @ '' File already exists: '' @ os_path_join (local_dir t) (filename t)
             \<in> set (out w')"
proof -
  let ?target = "os_path_join (local_dir t) (filename t)"
  let ?w1 = "print (step_header n i t) w"
  let ?cw = "checked_world t (disk w) ?w1"
  from ex rel have "path_is_dir (disk w) (Path (local_dir t))"
    by (rule exists_join_is_dir)
  then have "path_mkdir True True (Path (local_dir t)) (disk ?w1) = Inr (disk w)"
    by (simp add: path_mkdir_existing)
  then have dm: "download_model hf t ?w1 = download_checked hf t ?cw"
    by (rule download_model_mkdir_ok)
  from ex have "os_path_exists (disk ?cw) ?target" by simp
  from download_checked_existing [OF this, of hf] obtain sz s w2 where
    sz: "os_path_getsize (disk ?cw) ?target = Inr sz"
    and dc: "download_checked hf t ?cw = Inr (True, w2)"
    and w2: "disk w2 = disk ?cw" "remote w2 = remote ?cw" "fetch_log w2 = fetch_log ?cw"
    and out: "out w2 = out ?cw @ [check_mark @ '' File already exists: '' @ ?target, ''  Size: '' @ s]"
    by (elim exE conjE) (rule that)
  from dm dc have "download_model hf t ?w1 = Inr (True, w2)" by simp
  then have "main_step hf n i t (c, tot) w =
               Inr ((c + 1, tot + size_or_zero (disk w2) ?target), w2)"
    by (rule main_step_true)
  moreover from sz w2 have "size_or_zero (disk w2) ?target = sz"
    by (simp add: size_or_zero_def)
  ultimately have a: "main_step hf n i t (c, tot) w = Inr ((c + 1, tot + sz), w2)"
    by simp
  from sz have b: "os_path_getsize (disk w) ?target = Inr sz" by simp
  from w2 have c: "disk w2 = disk w" "remote w2 = remote w" "fetch_log w2 = fetch_log w"
    by simp_all
  from out have d: "check_mark @ '' File already exists: '' @ ?target \<in> set (out w2)"
    by simp
  from b a c d show ?thesis
    by (intro exI conjI)
qed

lemma main_step_fetched:
  assumes mk: "path_mkdir True True (Path (local_dir t)) (disk w) = Inr fs1"
    and nx: "\<not> os_path_exists fs1 (os_path_join (local_dir t) (filename t))"
    and fetch: "hf (remote w) fs1 (repo_id t) (filename t) (local_dir t) = (Inr p, r', fs2)"
    and ex: "os_path_exists fs2 p"
  shows "\<exists>w'. main_step hf n i t (c, tot) w =
                 Inr ((c + 1, tot + size_or_zero fs2 (os_path_join (local_dir t) (filename t))), w') \<and>
              disk w' = fs2 \<and> remote w' = r' \<and>
              fetch_log w' = fetch_log w @ [(repo_id t, filename t, local_dir t)]"
proof -
  let ?target = "os_path_join (local_dir t) (filename t)"
  let ?w1 = "print (step_header n i t) w"
  let ?cw = "checked_world t fs1 ?w1"
  from mk have "path_mkdir True True (Path (local_dir t)) (disk ?w1) = Inr fs1" by simp
  then have dm: "download_model hf t ?w1 = download_checked hf t ?cw"
    by (rule download_model_mkdir_ok)
  from nx have "\<not> os_path_exists (disk ?cw) ?target" by simp
  then have dc: "download_checked hf t ?cw = Inr (try_download hf t ?cw)"
    by (rule download_checked_missing)
  from fetch have f: "hf (remote ?cw) (disk ?cw) (repo_id t) (filename t) (local_dir t) = (Inr p, r', fs2)"
    by simp
  from try_download_ok [where hf = hf and w = "?cw" and t = t, OF f ex] obtain sz s w2 where
    td: "try_download hf t ?cw = (True, w2)"
    and w2: "disk w2 = fs2" "remote w2 = r'"
      "fetch_log w2 = fetch_log ?cw @ [(repo_id t, filename t, local_dir t)]"
    by (elim exE conjE) (rule that)
  from dm dc td have "download_model hf t ?w1 = Inr (True, w2)" by simp
  then have "main_step hf n i t (c, tot) w =
               Inr ((c + 1, tot + size_or_zero (disk w2) ?target), w2)"
    by (rule main_step_true)
  with w2 have a: "main_step hf n i t (c, tot) w = Inr ((c + 1, tot + size_or_zero fs2 ?target), w2)"
    by simp
  from w2 have b: "fetch_log w2 = fetch_log w @ [(repo_id t, filename t, local_dir t)]"
    by simp
  from a w2(1,2) b show ?thesis
    by (intro exI conjI)
qed

lemma main_step_failed:
  assumes mk: "path_mkdir True True (Path (local_dir t)) (disk w) = Inr fs1"
    and nx: "\<not> os_path_exists fs1 (os_path_join (local_dir t) (filename t))"
    and fetch: "hf (remote w) fs1 (repo_id t) (filename t) (local_dir t) = (res, r', fs2)"
    and failed: "(\<exists>e. res = Inl e) \<or> (\<exists>p. res = Inr p \<and> \<not> os_path_exists fs2 p)"
  shows "\<exists>w'. main_step hf n i t (c, tot) w = Inr ((c, tot), w') \<and>
              disk w' = fs2 \<and> remote w' = r' \<and>
              fetch_log w' = fetch_log w @ [(repo_id t, filename t, local_dir t)] \<and>
              last (out w') = cross_mark @ '' Failed to download '' @ filename t"
proof -
  let ?target = "os_path_join (local_dir t) (filename t)"
  let ?w1 = "print (step_header n i t) w"
  let ?cw = "checked_world t fs1 ?w1"
  from mk have "path_mkdir True True (Path (local_dir t)) (disk ?w1) = Inr fs1" by simp
  then have dm: "download_model hf t ?w1 = download_checked hf t ?cw"
    by (rule download_model_mkdir_ok)
  from nx have "\<not> os_path_exists (disk ?cw) ?target" by simp
  then have dc: "download_checked hf t ?cw = Inr (try_download hf t ?cw)"
    by (rule download_checked_missing)
  from fetch have f: "hf (remote ?cw) (disk ?cw) (repo_id t) (filename t) (local_dir t) = (res, r', fs2)"
    by simp
  have "\<exists>w2. try_download hf t ?cw = (False, w2) \<and> disk w2 = fs2 \<and> remote w2 = r' \<and>
          fetch_log w2 = fetch_log ?cw @ [(repo_id t, filename t, local_dir t)]"
    using failed
  proof
    assume "\<exists>e. res = Inl e"
    then obtain e where "res = Inl e" ..
    with f have "hf (remote ?cw) (disk ?cw) (repo_id t) (filename t) (local_dir t) = (Inl e, r', fs2)"
      by simp
    from try_download_raises [where hf = hf and w = "?cw" and t = t, OF this] obtain w2 where
      "try_download hf t ?cw = (False, w2)" "disk w2 = fs2" "remote w2 = r'"
      "fetch_log w2 = fetch_log ?cw @ [(repo_id t, filename t, local_dir t)]"
      by (elim exE conjE) (rule that)
    then show ?thesis by (intro exI conjI)
  next
    assume "\<exists>p. res = Inr p \<and> \<not> os_path_exists fs2 p"
    then obtain p where "res = Inr p" and np: "\<not> os_path_exists fs2 p"
      by (elim exE conjE) (rule that)
    with f have "hf (remote ?cw) (disk ?cw) (repo_id t) (filename t) (local_dir t) = (Inr p, r', fs2)"
      by simp
    from try_download_file_missing [where hf = hf and w = "?cw" and t = t, OF this np] obtain w2 where
      "try_download hf t ?cw = (False, w2)" "disk w2 = fs2" "remote w2 = r'"
      "fetch_log w2 = fetch_log ?cw @ [(repo_id t, filename t, local_dir t)]"
      by (elim exE conjE) (rule that)
    then show ?thesis by (intro exI conjI)
  qed
  then obtain w2 where td: "try_download hf t ?cw = (False, w2)"
    and w2: "disk w2 = fs2" "remote w2 = r'"
      "fetch_log w2 = fetch_log ?cw @ [(repo_id t, filename t, local_dir t)]"
    by (elim exE conjE) (rule that)
  let ?w' = "print (cross_mark @ '' Failed to download '' @ filename t) w2"
  from dm dc td have "download_model hf t ?w1 = Inr (False, w2)" by simp
  then have st: "main_step hf n i t (c, tot) w = Inr ((c, tot), ?w')"
    by (rule main_step_false)
  have fl: "disk ?w' = fs2" "remote ?w' = r'"
    "fetch_log ?w' = fetch_log w @ [(repo_id t, filename t, local_dir t)]"
    "last (out ?w') = cross_mark @ '' Failed to download '' @ filename t"
    using w2 by simp_all
  from st fl show ?thesis
    by (intro exI conjI)
qed

subsection \<open>Directory creation succeeds on an unobstructed path\<close>

lemma walk_errors:
  "walk ns cur cs = Inl e \<Longrightarrow> e = FileNotFoundError \<or> e = NotADirectoryError"
  by (induction cs arbitrary: cur) (auto split: option.splits node.splits if_splits)

lemma walk_append_eq:
  "walk ns cur xs = Inr mid \<Longrightarrow> walk ns cur (xs @ ys) = walk ns mid ys"
  by (induction xs arbitrary: cur) (auto split: option.splits node.splits if_splits)

lemma walk_plain:
  "\<forall>c \<in> set cs. plain_name c \<Longrightarrow> walk ns cur cs = Inr loc \<Longrightarrow> loc = cur @ cs"
proof (induction cs arbitrary: cur)
  case Nil
  then show ?case by simp
next
  case (Cons c cs)
  from Cons.prems(1) have pc: "plain_name c" and rest: "\<forall>c \<in> set cs. plain_name c"
    by simp_all
  from Cons.prems(2) obtain z where "ns cur = Some (Dir z)"
    using walk_Inr_Cons by blast
  with pc Cons.prems(2) have "walk ns (cur @ [c]) cs = Inr loc"
    by (simp add: plain_name_def)
  with Cons.IH [OF rest] have "loc = (cur @ [c]) @ cs" .
  then show ?case by simp
qed

lemma walk_plain_no_file:
  "\<forall>c \<in> set cs. plain_name c \<Longrightarrow>
   \<forall>k \<le> length cs. \<forall>sz. ns (cur @ take k cs) \<noteq> Some (File sz) \<Longrightarrow>
   walk ns cur cs = Inl e \<Longrightarrow> e = FileNotFoundError"
proof (induction cs arbitrary: cur)
  case Nil
  then show ?case by simp
next
  case (Cons c cs)
  from Cons.prems(2) have here: "\<forall>sz. ns cur \<noteq> Some (File sz)"
    by (metis append_Nil2 le0 take_0)
  have next_ok: "\<forall>k \<le> length cs. \<forall>sz. ns ((cur @ [c]) @ take k cs) \<noteq> Some (File sz)"
  proof (intro allI impI)
    fix k sz
    assume "k \<le> length cs"
    then have "Suc k \<le> length (c # cs)" by simp
    with Cons.prems(2) have "ns (cur @ take (Suc k) (c # cs)) \<noteq> Some (File sz)"
      by blast
    then show "ns ((cur @ [c]) @ take k cs) \<noteq> Some (File sz)" by simp
  qed
  from Cons.prems(1) have pc: "plain_name c" and rest: "\<forall>c \<in> set cs. plain_name c"
    by simp_all
  show ?case
  proof (cases "ns cur")
    case None
    with Cons.prems(3) show ?thesis by simp
  next
    case (Some nd)
    with here obtain z where d: "ns cur = Some (Dir z)"
      by (cases nd) auto
    with pc Cons.prems(3) have "walk ns (cur @ [c]) cs = Inl e"
      by (simp add: plain_name_def)
    with Cons.IH [OF rest next_ok] show ?thesis by simp
  qed
qed

lemma path_mkdir_grows:
  "path_mkdir parents exist_ok p fs = Inr fs' \<Longrightarrow>
   cwd fs' = cwd fs \<and> nodes fs \<subseteq>\<^sub>m nodes fs' \<and>
   (\<forall>l sz. nodes fs' l = Some (File sz) \<longrightarrow> nodes fs l = Some (File sz))"
proof (induction parents exist_ok p fs arbitrary: fs' rule: path_mkdir.induct)
  case (1 parents exist_ok p fs)
  show ?case
  proof (cases "os_mkdir fs p")
    case (Inr fs1)
    with "1.prems" have eq: "fs' = fs1"
      by (simp add: path_mkdir.simps [of parents exist_ok p fs])
    from Inr obtain loc where free: "nodes fs loc = None"
      and fs1: "fs1 = fs\<lparr>nodes := (nodes fs)(loc \<mapsto> Dir (dir_size fs))\<rparr>"
      by (auto simp: os_mkdir_def split: sum.splits option.splits)
    from free have "nodes fs \<subseteq>\<^sub>m nodes fs1"
      by (auto simp: fs1 map_le_def)
    moreover have "cwd fs1 = cwd fs" by (simp add: fs1)
    moreover have "\<forall>l sz. nodes fs1 l = Some (File sz) \<longrightarrow> nodes fs l = Some (File sz)"
      by (auto simp: fs1 split: if_splits)
    ultimately show ?thesis using eq by simp
  next
    case (Inl e)
    show ?thesis
    proof (cases "e = FileNotFoundError")
      case True
      with Inl "1.prems" have go: "\<not> (\<not> parents \<or> parent p = p)"
        by (auto simp: path_mkdir.simps [of parents exist_ok p fs] split: if_splits)
      with Inl True "1.prems" obtain fs1 where
        a: "path_mkdir True True (parent p) fs = Inr fs1"
        and b: "path_mkdir False exist_ok p fs1 = Inr fs'"
        by (auto simp: path_mkdir.simps [of parents exist_ok p fs] split: sum.splits)
      from "1.IH"(1) [OF Inl True go a] "1.IH"(2) [OF Inl True go a b] show ?thesis
        by (auto intro: map_le_trans)
    next
      case False
      with Inl "1.prems" have "fs' = fs"
        by (cases e) (auto simp: path_mkdir.simps [of parents exist_ok p fs] split: if_splits)
      then show ?thesis by simp
    qed
  qed
qed

lemma parent_fields [simp]:
  "is_abs (parent p) = is_abs p" "parts (parent p) = butlast (parts p)"
  by (simp_all add: parent_def)

lemma path_walk_plain:
  assumes plain: "\<forall>c \<in> set (parts p). plain_name c"
    and ready: "if parts p = [] then (\<exists>z. nodes fs (if is_abs p then [] else cwd fs) = Some (Dir z))
                else path_is_dir fs (parent p)"
  shows "path_walk fs p = Inr ((if is_abs p then [] else cwd fs) @ parts p)"
proof (cases "parts p = []")
  case True
  with ready obtain z where "nodes fs (if is_abs p then [] else cwd fs) = Some (Dir z)"
    by auto
  with True show ?thesis
    by (simp add: path_walk_def)
next
  case False
  define st where "st = (if is_abs p then [] else cwd fs)"
  define xs where "xs = butlast (parts p)"
  define x where "x = last (parts p)"
  from False have ps: "parts p = xs @ [x]"
    by (simp add: xs_def x_def)
  from plain ps have px: "plain_name x" and pxs: "\<forall>c \<in> set xs. plain_name c"
    by simp_all
  from ready False have dir: "path_is_dir fs (parent p)" by simp
  then obtain loc z where w: "path_walk fs (parent p) = Inr loc" and d: "nodes fs loc = Some (Dir z)"
    by (auto simp: path_is_dir_def split: sum.splits option.splits node.splits)
  have "walk (nodes fs) st xs = Inr loc"
  proof (cases "xs = []")
    case True
    with w have "walk (nodes fs) st [''.''] = Inr loc"
      by (simp add: path_walk_def st_def xs_def)
    then have "loc = st"
      by (auto split: option.splits node.splits)
    with True show ?thesis by simp
  next
    case False
    with w show ?thesis
      by (simp add: path_walk_def st_def xs_def)
  qed
  moreover from this pxs have loc: "loc = st @ xs"
    by (rule walk_plain [rotated])
  ultimately have "walk (nodes fs) st (xs @ [x]) = walk (nodes fs) loc [x]"
    by (simp add: walk_append_eq)
  also from d px have "\<dots> = Inr (loc @ [x])"
    by (simp add: plain_name_def)
  finally have "walk (nodes fs) st (parts p) = Inr (st @ parts p)"
    by (simp add: ps loc)
  with False show ?thesis
    by (simp add: path_walk_def st_def)
qed

lemma path_mkdir_ready:
  assumes plain: "\<forall>c \<in> set (parts p). plain_name c"
    and ready: "if parts p = [] then (\<exists>z. nodes fs (if is_abs p then [] else cwd fs) = Some (Dir z))
                else path_is_dir fs (parent p)"
    and nofile: "\<forall>sz. nodes fs ((if is_abs p then [] else cwd fs) @ parts p) \<noteq> Some (File sz)"
  shows "\<exists>fs'. path_mkdir parents True p fs = Inr fs'"
proof -
  let ?loc = "(if is_abs p then [] else cwd fs) @ parts p"
  from plain ready have w: "path_walk fs p = Inr ?loc"
    by (rule path_walk_plain)
  show ?thesis
  proof (cases "nodes fs ?loc")
    case None
    with w have "os_mkdir fs p = Inr (fs\<lparr>nodes := (nodes fs)(?loc \<mapsto> Dir (dir_size fs))\<rparr>)"
      by (simp add: os_mkdir_def)
    then show ?thesis
      by (simp add: path_mkdir.simps [of parents True p fs])
  next
    case (Some nd)
    with nofile obtain z where "nodes fs ?loc = Some (Dir z)"
      by (cases nd) auto
    with w have "path_is_dir fs p"
      by (simp add: path_is_dir_def)
    then have "path_mkdir parents True p fs = Inr fs"
      by (rule path_mkdir_existing)
    then show ?thesis ..
  qed
qed

lemma path_mkdir_succeeds:
  assumes plain: "\<forall>c \<in> set (parts p). plain_name c"
    and root: "nodes fs (if is_abs p then [] else cwd fs) = Some (Dir z)"
    and nofile: "\<forall>k \<le> length (parts p). \<forall>sz.
                   nodes fs ((if is_abs p then [] else cwd fs) @ take k (parts p)) \<noteq> Some (File sz)"
  shows "\<exists>fs'. path_mkdir True True p fs = Inr fs'"
  using assms
proof (induction "length (parts p)" arbitrary: p)
  case 0
  then have "parts p = []" by simp
  with "0.prems" show ?case
    by (intro path_mkdir_ready) auto
next
  case (Suc n)
  let ?st = "if is_abs p then [] else cwd fs"
  from Suc.hyps(2) have ne: "parts p \<noteq> []" by auto
  have pne: "parent p \<noteq> p"
  proof
    assume "parent p = p"
    then have "parts (parent p) = parts p"
      by (rule arg_cong)
    then have "length (butlast (parts p)) = length (parts p)"
      by (simp only: parent_fields)
    with ne show False
      by (cases "parts p" rule: rev_cases) simp_all
  qed
  have last_free: "\<forall>sz. nodes fs (?st @ parts p) \<noteq> Some (File sz)"
    using Suc.prems(3) [rule_format, of "length (parts p)"] by simp
  show ?case
  proof (cases "os_mkdir fs p")
    case (Inr fs1)
    then show ?thesis
      by (simp add: path_mkdir.simps [of True True p fs])
  next
    case (Inl e)
    show ?thesis
    proof (cases "path_walk fs p")
      case (Inr loc)
      with Inl obtain nd where nd: "nodes fs loc = Some nd"
        by (auto simp: os_mkdir_def split: option.splits)
      from Inr ne have "walk (nodes fs) ?st (parts p) = Inr loc"
        by (simp add: path_walk_def)
      with Suc.prems(1) have "loc = ?st @ parts p"
        by (rule walk_plain)
      with nd last_free obtain z' where "nodes fs loc = Some (Dir z')"
        by (cases nd) auto
      with Inr have "path_is_dir fs p"
        by (simp add: path_is_dir_def)
      then have "path_mkdir True True p fs = Inr fs"
        by (rule path_mkdir_existing)
      then show ?thesis ..
    next
      case (Inl e')
      with ne have we: "walk (nodes fs) ?st (parts p) = Inl e'"
        by (simp add: path_walk_def)
      from Suc.prems(1) Suc.prems(3) we have "e' = FileNotFoundError"
        by (rule walk_plain_no_file)
      with Inl have om: "os_mkdir fs p = Inl FileNotFoundError"
        by (simp add: os_mkdir_def)
      have len: "n = length (parts (parent p))"
        using Suc.hyps(2) by simp
      have plain': "\<forall>c \<in> set (parts (parent p)). plain_name c"
        using Suc.prems(1) by (auto dest: in_set_butlastD)
      have root': "nodes fs (if is_abs (parent p) then [] else cwd fs) = Some (Dir z)"
        using Suc.prems(2) by simp
      have nofile': "\<forall>k \<le> length (parts (parent p)). \<forall>sz.
          nodes fs ((if is_abs (parent p) then [] else cwd fs) @ take k (parts (parent p)))
            \<noteq> Some (File sz)"
      proof (intro allI impI)
        fix k sz
        assume k: "k \<le> length (parts (parent p))"
        with ne have "k < length (parts p)"
          by (cases "parts p" rule: rev_cases) simp_all
        then have "take k (parts (parent p)) = take k (parts p)"
          by (simp add: take_butlast)
        moreover from k have "k \<le> length (parts p)" by simp
        ultimately show "nodes fs ((if is_abs (parent p) then [] else cwd fs)
                           @ take k (parts (parent p))) \<noteq> Some (File sz)"
          using Suc.prems(3) by simp
      qed
      from Suc.hyps(1) [OF len plain' root' nofile'] obtain fs1 where
        up: "path_mkdir True True (parent p) fs = Inr fs1" ..
      then have dir1: "path_is_dir fs1 (parent p)"
        by (rule path_mkdir_is_dir)
      from path_mkdir_grows [OF up] have cw: "cwd fs1 = cwd fs"
        and files: "\<forall>l sz. nodes fs1 l = Some (File sz) \<longrightarrow> nodes fs l = Some (File sz)"
        by simp_all
      have ready: "if parts p = [] then (\<exists>z. nodes fs1 (if is_abs p then [] else cwd fs1) = Some (Dir z))
                   else path_is_dir fs1 (parent p)"
        using ne dir1 by simp
      have free1: "\<forall>sz. nodes fs1 ((if is_abs p then [] else cwd fs1) @ parts p) \<noteq> Some (File sz)"
        using last_free files cw by auto
      from path_mkdir_ready [OF Suc.prems(1) ready free1, of False] obtain fs' where
        "path_mkdir False True p fs1 = Inr fs'" ..
      with om up pne have "path_mkdir True True p fs = Inr fs'"
        by (simp add: path_mkdir.simps [of True True p fs])
      then show ?thesis ..
    qed
  qed
qed

subsection \<open>Processing one task\<close>

lemma demo_target: "os_path_join (local_dir demo_task) (filename demo_task) = ''models/m.gguf''"
  by (simp add: demo_task_def os_path_join_def)

lemma demo_mkdir:
  "path_mkdir True True (Path (local_dir demo_task)) (disk blank_world) =
     Inr \<lparr>nodes = [[] \<mapsto> Dir 4096, [''models''] \<mapsto> Dir 4096], cwd = [], dir_size = 4096\<rparr>"
  by (simp add: demo_task_def Path_def blank_world_def path_mkdir.simps os_mkdir_def path_walk_def)

lemma demo_missing:
  "\<not> os_path_exists \<lparr>nodes = [[] \<mapsto> Dir 4096, [''models''] \<mapsto> Dir 4096], cwd = [], dir_size = 4096\<rparr>
       ''models/m.gguf''"
  by (simp add: os_path_exists_def os_stat_def resolve_def)


lemma demo_stat:
  "os_stat \<lparr>nodes = [[] \<mapsto> Dir 4096, [''models''] \<mapsto> Dir 4096, [''models'', ''m.gguf''] \<mapsto> File sz],
            cwd = [], dir_size = 4096\<rparr> ''models/m.gguf'' = Inr (File sz)"
  by (simp add: os_stat_def resolve_def)


lemma stocked_exists:
  "os_path_exists (disk stocked_world) (os_path_join (local_dir demo_task) (filename demo_task))"
  by (simp add: stocked_world_def demo_target os_path_exists_def demo_stat)

lemma stocked_size:
  "os_path_getsize (disk stocked_world) (os_path_join (local_dir demo_task) (filename demo_task)) =
     Inr 300"
  by (simp add: stocked_world_def demo_target os_path_getsize_def demo_stat)

lemma demo_relative: "filename demo_task = [] \<or> hd (filename demo_task) \<noteq> CHR ''/''"
  by (simp add: demo_task_def)

text \<open>
  Claim C2. When the target file of a task (directory joined with filename, the filename
  being a name relative to the directory, as the filenames of a repository are) already
  exists, processing the task never calls the fetch service, counts the task as a success
  and adds the size of the file that was there to the total. Nothing on disk changes.
\<close>

theorem existing_file_skips_fetch:
  assumes "os_path_exists (disk w) (os_path_join (local_dir t) (filename t))"
    and "filename t = [] \<or> hd (filename t) \<noteq> CHR ''/''"
  shows "\<exists>sz w'. os_path_getsize (disk w) (os_path_join (local_dir t) (filename t)) = Inr sz \<and>
           main_step hf n i t (c, tot) w = Inr ((c + 1, tot + sz), w') \<and>
           disk w' = disk w \<and> remote w' = remote w \<and> fetch_log w' = fetch_log w \<and>
           check_mark @ '' File already exists: '' @ os_path_join (local_dir t) (filename t)
             \<in> set (out w')"
  using assms by (rule main_step_existing)

theorem existing_file_skips_fetch_witness:
  "os_path_exists (disk stocked_world) (os_path_join (local_dir demo_task) (filename demo_task)) \<and>
   (\<exists>w'. main_step failing_fetch 1 1 demo_task (0, 0) stocked_world = Inr ((1, 300), w') \<and>
         disk w' = disk stocked_world \<and> fetch_log w' = [])"
proof -
  from existing_file_skips_fetch [OF stocked_exists demo_relative, of failing_fetch 1 1 0 0]
  obtain sz w' where
    "os_path_getsize (disk stocked_world)
       (os_path_join (local_dir demo_task) (filename demo_task)) = Inr sz"
    and st: "main_step failing_fetch 1 1 demo_task (0, 0) stocked_world = Inr ((0 + 1, 0 + sz), w')"
    and w': "disk w' = disk stocked_world" "fetch_log w' = fetch_log stocked_world"
    by (elim exE conjE) (rule that)
  then have "sz = 300"
    by (simp add: stocked_size)
  with st have "main_step failing_fetch 1 1 demo_task (0, 0) stocked_world = Inr ((1, 300), w')"
    by simp
  moreover from w' have "fetch_log w' = []"
    by (simp add: stocked_world_def)
  ultimately have "\<exists>w'. main_step failing_fetch 1 1 demo_task (0, 0) stocked_world = Inr ((1, 300), w') \<and>
         disk w' = disk stocked_world \<and> fetch_log w' = []"
    using w'(1) by (intro exI conjI)
  with stocked_exists show ?thesis ..
qed



text \<open>
  Claim C3. When the fetch service is called for a task and fails, that is, it raises an
  error or nothing exists afterwards at the path it returned, the task is recorded as
  failed: the success count and the total are both unchanged (the task adds zero bytes,
  whatever the service left on disk) and the failure line is printed. The loop then goes
  on with the remaining tasks.
\<close>

theorem fetch_failure_is_local:
  assumes "path_mkdir True True (Path (local_dir t)) (disk w) = Inr fs1"
    and "\<not> os_path_exists fs1 (os_path_join (local_dir t) (filename t))"
    and "hf (remote w) fs1 (repo_id t) (filename t) (local_dir t) = (res, r', fs2)"
    and "(\<exists>e. res = Inl e) \<or> (\<exists>p. res = Inr p \<and> \<not> os_path_exists fs2 p)"
  shows "\<exists>w'. main_step hf n i t (c, tot) w = Inr ((c, tot), w') \<and>
              disk w' = fs2 \<and> remote w' = r' \<and>
              last (out w') = cross_mark @ '' Failed to download '' @ filename t \<and>
              main_loop hf n i (t # rest) (c, tot) w = main_loop hf n (i + 1) rest (c, tot) w'"
proof -
  from main_step_failed [where hf = hf, OF assms, of n i c tot] obtain w' where
    st: "main_step hf n i t (c, tot) w = Inr ((c, tot), w')"
    and w': "disk w' = fs2" "remote w' = r'"
      "last (out w') = cross_mark @ '' Failed to download '' @ filename t"
    by (elim exE conjE) (rule that)
  from st have "main_loop hf n i (t # rest) (c, tot) w = main_loop hf n (i + 1) rest (c, tot) w'"
    by simp
  with st w' show ?thesis
    by (intro exI conjI)
qed

theorem fetch_failure_is_local_witness:
  "\<exists>w'. main_step failing_fetch 2 1 demo_task (0, 0) blank_world = Inr ((0, 0), w') \<and>
        last (out w') = cross_mark @ '' Failed to download m.gguf'' \<and>
        main_loop failing_fetch 2 1 [demo_task, demo_task] (0, 0) blank_world =
          main_loop failing_fetch 2 2 [demo_task] (0, 0) w'"
proof -
  let ?fs1 = "\<lparr>nodes = [[] \<mapsto> Dir 4096, [''models''] \<mapsto> Dir 4096], cwd = [], dir_size = 4096\<rparr>"
  have nx: "\<not> os_path_exists ?fs1 (os_path_join (local_dir demo_task) (filename demo_task))"
    unfolding demo_target by (rule demo_missing)
  have f: "failing_fetch (remote blank_world) ?fs1 (repo_id demo_task) (filename demo_task)
             (local_dir demo_task) = (Inl (ServiceError ''connection reset''), (), ?fs1)"
    by (simp add: failing_fetch_def)
  have failed: "(\<exists>e. (Inl (ServiceError ''connection reset'') :: exn + string) = Inl e) \<or>
     (\<exists>p. (Inl (ServiceError ''connection reset'') :: exn + string) = Inr p \<and> \<not> os_path_exists ?fs1 p)"
    by simp
  from fetch_failure_is_local [where hf = failing_fetch, OF demo_mkdir nx f failed,
      of 2 1 0 0 "[demo_task]"]
  obtain w' where st: "main_step failing_fetch 2 1 demo_task (0, 0) blank_world = Inr ((0, 0), w')"
    and l: "last (out w') = cross_mark @ '' Failed to download '' @ filename demo_task"
    and lp: "main_loop failing_fetch 2 1 [demo_task, demo_task] (0, 0) blank_world =
          main_loop failing_fetch 2 (1 + 1) [demo_task] (0, 0) w'"
    by (elim exE conjE) (rule that)
  from l have l': "last (out w') = cross_mark @ '' Failed to download m.gguf''"
    by (simp add: demo_task_def)
  from lp have lp': "main_loop failing_fetch 2 1 [demo_task, demo_task] (0, 0) blank_world =
          main_loop failing_fetch 2 2 [demo_task] (0, 0) w'"
    by (simp only: one_add_one)
  from st l' lp' show ?thesis
    by (intro exI conjI)
qed

subsection \<open>Directory creation in the script\<close>

lemma path_is_dir_prefix:
  assumes "path_is_dir fs p"
  shows "path_is_dir fs (p\<lparr>parts := take k (parts p)\<rparr>)"
proof (cases "length (parts p) \<le> k")
  case True
  then have "p\<lparr>parts := take k (parts p)\<rparr> = p" by simp
  with assms show ?thesis by simp
next
  case False
  let ?st = "if is_abs p then [] else cwd fs"
  from False have ne: "parts p \<noteq> []" and dne: "drop k (parts p) \<noteq> []"
    by auto
  from assms obtain loc where "path_walk fs p = Inr loc"
    by (auto simp: path_is_dir_def split: sum.splits)
  with ne have "walk (nodes fs) ?st (take k (parts p) @ drop k (parts p)) = Inr loc"
    by (simp add: path_walk_def)
  from walk_append [OF this] obtain mid where
    a: "walk (nodes fs) ?st (take k (parts p)) = Inr mid"
    and b: "walk (nodes fs) mid (drop k (parts p)) = Inr loc"
    by (elim exE conjE) (rule that)
  from dne obtain c cs where "drop k (parts p) = c # cs"
    by (cases "drop k (parts p)") auto
  with b have "walk (nodes fs) mid (c # cs) = Inr loc" by simp
  from walk_Inr_Cons [OF this] obtain sz where d: "nodes fs mid = Some (Dir sz)" ..
  show ?thesis
  proof (cases "take k (parts p) = []")
    case True
    with a have "mid = ?st" by simp
    with d True show ?thesis
      by (simp add: path_is_dir_def path_walk_def)
  next
    case False
    with a d show ?thesis
      by (simp add: path_is_dir_def path_walk_def)
  qed
qed

lemma create_directory_existing:
  assumes "path_is_dir (disk w) (Path path)"
  shows "create_directory path w = Inr (print (check_mark @ '' Created directory: '' @ path) w)"
proof -
  from assms have "path_mkdir True True (Path path) (disk w) = Inr (disk w)"
    by (rule path_mkdir_existing)
  then show ?thesis
    by (simp add: create_directory_def)
qed

lemma create_directory_is_dir:
  assumes "create_directory path w = Inr w'"
  shows "path_is_dir (disk w') (Path path)"
proof -
  from assms obtain fs' where mk: "path_mkdir True True (Path path) (disk w) = Inr fs'"
    and w': "w' = print (check_mark @ '' Created directory: '' @ path) (w\<lparr>disk := fs'\<rparr>)"
    by (auto simp: create_directory_def split: sum.splits)
  from mk have "path_is_dir fs' (Path path)"
    by (rule path_mkdir_is_dir)
  with w' show ?thesis by simp
qed

lemma create_directory_succeeds:
  assumes "\<forall>c \<in> set (parts (Path path)). plain_name c"
    and "nodes (disk w) (if is_abs (Path path) then [] else cwd (disk w)) = Some (Dir z)"
    and "\<forall>k \<le> length (parts (Path path)). \<forall>sz.
           nodes (disk w) ((if is_abs (Path path) then [] else cwd (disk w))
                             @ take k (parts (Path path))) \<noteq> Some (File sz)"
  shows "\<exists>w'. create_directory path w = Inr w'"
proof -
  from path_mkdir_succeeds [OF assms] obtain fs' where
    "path_mkdir True True (Path path) (disk w) = Inr fs'" ..
  then show ?thesis
    by (simp add: create_directory_def)
qed

lemma download_model_checked:
  assumes "download_model hf t w = Inr (ok, w')"
  shows "\<exists>fs1. path_mkdir True True (Path (local_dir t)) (disk w) = Inr fs1 \<and>
           path_is_dir fs1 (Path (local_dir t)) \<and>
           download_checked hf t (checked_world t fs1 w) = Inr (ok, w')"
proof (cases "path_mkdir True True (Path (local_dir t)) (disk w)")
  case (Inl e)
  then have "download_model hf t w = Inl e"
    by (rule download_model_mkdir_fails)
  with assms show ?thesis by simp
next
  case (Inr fs1)
  then have "download_model hf t w = download_checked hf t (checked_world t fs1 w)"
    by (rule download_model_mkdir_ok)
  with assms have "download_checked hf t (checked_world t fs1 w) = Inr (ok, w')"
    by simp
  moreover from Inr have "path_is_dir fs1 (Path (local_dir t))"
    by (rule path_mkdir_is_dir)
  ultimately show ?thesis
    using Inr by (intro exI conjI)
qed

lemma demo_dir: "local_dir demo_task = ''models''"
  by (simp add: demo_task_def)

lemma stocked_is_dir: "path_is_dir (disk stocked_world) (Path ''models'')"
  using exists_join_is_dir [OF stocked_exists demo_relative] by (simp only: demo_dir)

lemma nested_mkdir:
  "path_mkdir True True (Path ''models/2bit'') (disk blank_world) =
     Inr \<lparr>nodes = [[] \<mapsto> Dir 4096, [''models''] \<mapsto> Dir 4096, [''models'', ''2bit''] \<mapsto> Dir 4096],
          cwd = [], dir_size = 4096\<rparr>"
  by (simp add: Path_def blank_world_def path_mkdir.simps os_mkdir_def path_walk_def parent_def)

lemma nested_clear:
  "(\<forall>c \<in> set (parts (Path ''models/2bit'')). plain_name c) \<and>
   (\<exists>z. nodes (disk blank_world)
          (if is_abs (Path ''models/2bit'') then [] else cwd (disk blank_world)) = Some (Dir z)) \<and>
   (\<forall>k \<le> length (parts (Path ''models/2bit'')). \<forall>sz.
      nodes (disk blank_world)
        ((if is_abs (Path ''models/2bit'') then [] else cwd (disk blank_world))
           @ take k (parts (Path ''models/2bit''))) \<noteq> Some (File sz))"
  by (simp add: Path_def plain_name_def blank_world_def)

lemma nested_prefix:
  "(Path ''models/2bit'')\<lparr>parts := take 1 (parts (Path ''models/2bit''))\<rparr> = Path ''models''"
  by (simp add: Path_def)

lemma stocked_download:
  "\<exists>w3. download_model failing_fetch demo_task stocked_world = Inr (True, w3)"
proof -
  let ?cw = "checked_world demo_task (disk stocked_world) stocked_world"
  from stocked_is_dir have "path_is_dir (disk stocked_world) (Path (local_dir demo_task))"
    by (simp only: demo_dir)
  then have "path_mkdir True True (Path (local_dir demo_task)) (disk stocked_world) =
               Inr (disk stocked_world)"
    by (rule path_mkdir_existing)
  then have dm: "download_model failing_fetch demo_task stocked_world =
                   download_checked failing_fetch demo_task ?cw"
    by (rule download_model_mkdir_ok)
  have "os_path_exists (disk ?cw) (os_path_join (local_dir demo_task) (filename demo_task))"
    using stocked_exists by simp
  from download_checked_existing [OF this, of failing_fetch] obtain w3 where
    "download_checked failing_fetch demo_task ?cw = Inr (True, w3)"
    by (elim exE conjE) (rule that)
  with dm have "download_model failing_fetch demo_task stocked_world = Inr (True, w3)"
    by simp
  then show ?thesis ..
qed

lemma main_loop_two:
  assumes "main_step hf n i a c0 w0 = Inr (c1, w1)"
    and "main_step hf n (i + 1) b c1 w1 = Inr (c2, w2)"
  shows "main_loop hf n i [a, b] c0 w0 = Inr (c2, w2)"
  using assms by simp

lemma main_loop_three:
  assumes "main_step hf n i a c0 w0 = Inr (c1, w1)"
    and "main_step hf n (i + 1) b c1 w1 = Inr (c2, w2)"
    and "main_step hf n (i + 1 + 1) c c2 w2 = Inr (c3, w3)"
  shows "main_loop hf n i [a, b, c] c0 w0 = Inr (c3, w3)"
  using assms by simp

text \<open>
  Claim C8. Processing a task creates the local directory of the task before the
  existence check: whenever \<^verbatim>\<open>download_model\<close> returns, the check and all that follows
  ran on the filesystem that the directory creation left, in which the directory is a
  directory. The creation makes the parent directories as needed: after it, every
  leading part of the path is a directory, and it succeeds whenever the path is made of
  plain names, starts from a directory and meets no regular file on its way. It is
  idempotent: where the directory already exists it raises nothing and leaves the
  filesystem as it is, printing its line only; so a second creation after a first one
  changes nothing.
\<close>

theorem directory_ensured:
  "(\<forall>ok w'. download_model hf t w = Inr (ok, w') \<longrightarrow>
      (\<exists>fs1. path_mkdir True True (Path (local_dir t)) (disk w) = Inr fs1 \<and>
             path_is_dir fs1 (Path (local_dir t)) \<and>
             download_checked hf t (checked_world t fs1 w) = Inr (ok, w'))) \<and>
   (\<forall>w'. create_directory path w = Inr w' \<longrightarrow>
      (\<forall>k. path_is_dir (disk w') ((Path path)\<lparr>parts := take k (parts (Path path))\<rparr>)) \<and>
      (\<exists>w''. create_directory path w' = Inr w'' \<and> disk w'' = disk w')) \<and>
   ((\<forall>c \<in> set (parts (Path path)). plain_name c) \<and>
    (\<exists>z. nodes (disk w) (if is_abs (Path path) then [] else cwd (disk w)) = Some (Dir z)) \<and>
    (\<forall>k \<le> length (parts (Path path)). \<forall>sz.
        nodes (disk w) ((if is_abs (Path path) then [] else cwd (disk w))
                          @ take k (parts (Path path))) \<noteq> Some (File sz)) \<longrightarrow>
    (\<exists>w'. create_directory path w = Inr w')) \<and>
   (path_is_dir (disk w) (Path path) \<longrightarrow>
      (\<exists>w'. create_directory path w = Inr w' \<and> disk w' = disk w \<and> remote w' = remote w \<and>
            fetch_log w' = fetch_log w \<and>
            out w' = out w @ [check_mark @ '' Created directory: '' @ path]))"
proof (intro conjI allI impI)
  fix ok w'
  assume "download_model hf t w = Inr (ok, w')"
  then show "\<exists>fs1. path_mkdir True True (Path (local_dir t)) (disk w) = Inr fs1 \<and>
             path_is_dir fs1 (Path (local_dir t)) \<and>
             download_checked hf t (checked_world t fs1 w) = Inr (ok, w')"
    by (rule download_model_checked)
next
  fix w' k
  assume "create_directory path w = Inr w'"
  then have "path_is_dir (disk w') (Path path)"
    by (rule create_directory_is_dir)
  then show "path_is_dir (disk w') ((Path path)\<lparr>parts := take k (parts (Path path))\<rparr>)"
    by (rule path_is_dir_prefix)
next
  fix w'
  assume "create_directory path w = Inr w'"
  then have "path_is_dir (disk w') (Path path)"
    by (rule create_directory_is_dir)
  then have "create_directory path w' = Inr (print (check_mark @ '' Created directory: '' @ path) w')"
    by (rule create_directory_existing)
  then show "\<exists>w''. create_directory path w' = Inr w'' \<and> disk w'' = disk w'"
    by simp
next
  assume a: "(\<forall>c \<in> set (parts (Path path)). plain_name c) \<and>
    (\<exists>z. nodes (disk w) (if is_abs (Path path) then [] else cwd (disk w)) = Some (Dir z)) \<and>
    (\<forall>k \<le> length (parts (Path path)). \<forall>sz.
        nodes (disk w) ((if is_abs (Path path) then [] else cwd (disk w))
                          @ take k (parts (Path path))) \<noteq> Some (File sz))"
  then obtain z where "nodes (disk w) (if is_abs (Path path) then [] else cwd (disk w)) = Some (Dir z)"
    by (elim exE conjE) (rule that)
  with a show "\<exists>w'. create_directory path w = Inr w'"
    by (intro create_directory_succeeds) simp_all
next
  assume "path_is_dir (disk w) (Path path)"
  then have "create_directory path w = Inr (print (check_mark @ '' Created directory: '' @ path) w)"
    by (rule create_directory_existing)
  then show "\<exists>w'. create_directory path w = Inr w' \<and> disk w' = disk w \<and> remote w' = remote w \<and>
            fetch_log w' = fetch_log w \<and>
            out w' = out w @ [check_mark @ '' Created directory: '' @ path]"
    by simp
qed

theorem directory_ensured_witness:
  "(\<exists>w1 w2. create_directory ''models/2bit'' blank_world = Inr w1 \<and>
      disk w1 = \<lparr>nodes = [[] \<mapsto> Dir 4096, [''models''] \<mapsto> Dir 4096,
                           [''models'', ''2bit''] \<mapsto> Dir 4096],
                 cwd = [], dir_size = 4096\<rparr> \<and>
      path_is_dir (disk w1) (Path ''models'') \<and>
      create_directory ''models/2bit'' w1 = Inr w2 \<and> disk w2 = disk w1) \<and>
   (\<exists>w'. create_directory ''models'' stocked_world = Inr w' \<and> disk w' = disk stocked_world) \<and>
   (\<exists>w3 fs1. download_model failing_fetch demo_task stocked_world = Inr (True, w3) \<and>
      path_is_dir fs1 (Path ''models'') \<and>
      download_checked failing_fetch demo_task (checked_world demo_task fs1 stocked_world) =
        Inr (True, w3))"
proof -
  note nested = directory_ensured [where hf = failing_fetch and t = demo_task
      and w = blank_world and path = "''models/2bit''"]
  note stocked = directory_ensured [where hf = failing_fetch and t = demo_task
      and w = stocked_world and path = "''models''"]
  from nested [THEN conjunct2, THEN conjunct2, THEN conjunct1, THEN mp, OF nested_clear]
  obtain w1 where cd: "create_directory ''models/2bit'' blank_world = Inr w1" ..
  from nested [THEN conjunct2, THEN conjunct1, THEN spec, THEN mp, OF cd]
  have pre: "\<forall>k. path_is_dir (disk w1)
                 ((Path ''models/2bit'')\<lparr>parts := take k (parts (Path ''models/2bit''))\<rparr>)"
    and "\<exists>w2. create_directory ''models/2bit'' w1 = Inr w2 \<and> disk w2 = disk w1"
    by simp_all
  then obtain w2 where again: "create_directory ''models/2bit'' w1 = Inr w2" "disk w2 = disk w1"
    by (elim exE conjE) (rule that)
  from pre have "path_is_dir (disk w1)
                   ((Path ''models/2bit'')\<lparr>parts := take 1 (parts (Path ''models/2bit''))\<rparr>)" ..
  then have up: "path_is_dir (disk w1) (Path ''models'')"
    by (simp only: nested_prefix)
  from cd have "w1 = print (check_mark @ '' Created directory: '' @ ''models/2bit'')
                  (blank_world\<lparr>disk := \<lparr>nodes = [[] \<mapsto> Dir 4096, [''models''] \<mapsto> Dir 4096,
                                                 [''models'', ''2bit''] \<mapsto> Dir 4096],
                                        cwd = [], dir_size = 4096\<rparr>\<rparr>)"
    by (simp only: create_directory_def nested_mkdir sum.case sum.inject)
  then have d1: "disk w1 = \<lparr>nodes = [[] \<mapsto> Dir 4096, [''models''] \<mapsto> Dir 4096,
                                      [''models'', ''2bit''] \<mapsto> Dir 4096],
                            cwd = [], dir_size = 4096\<rparr>"
    by simp
  from cd d1 up again have first:
    "\<exists>w1 w2. create_directory ''models/2bit'' blank_world = Inr w1 \<and>
      disk w1 = \<lparr>nodes = [[] \<mapsto> Dir 4096, [''models''] \<mapsto> Dir 4096,
                           [''models'', ''2bit''] \<mapsto> Dir 4096],
                 cwd = [], dir_size = 4096\<rparr> \<and>
      path_is_dir (disk w1) (Path ''models'') \<and>
      create_directory ''models/2bit'' w1 = Inr w2 \<and> disk w2 = disk w1"
    by (intro exI conjI)
  from stocked [THEN conjunct2, THEN conjunct2, THEN conjunct2, THEN mp, OF stocked_is_dir]
  obtain w' where "create_directory ''models'' stocked_world = Inr w'" "disk w' = disk stocked_world"
    by (elim exE conjE) (rule that)
  then have second: "\<exists>w'. create_directory ''models'' stocked_world = Inr w' \<and>
                          disk w' = disk stocked_world"
    by (intro exI conjI)
  from stocked_download obtain w3 where
    dm: "download_model failing_fetch demo_task stocked_world = Inr (True, w3)" ..
  from stocked [THEN conjunct1, THEN spec, THEN spec, THEN mp, OF dm]
  obtain fs1 where "path_is_dir fs1 (Path (local_dir demo_task))"
    and "download_checked failing_fetch demo_task (checked_world demo_task fs1 stocked_world) =
           Inr (True, w3)"
    by (elim exE conjE) (rule that)
  then have "path_is_dir fs1 (Path ''models'')"
    and "download_checked failing_fetch demo_task (checked_world demo_task fs1 stocked_world) =
           Inr (True, w3)"
    by (simp_all only: demo_dir)
  with dm have third: "\<exists>w3 fs1. download_model failing_fetch demo_task stocked_world = Inr (True, w3) \<and>
      path_is_dir fs1 (Path ''models'') \<and>
      download_checked failing_fetch demo_task (checked_world demo_task fs1 stocked_world) =
        Inr (True, w3)"
    by (intro exI conjI)
  from first second third show ?thesis
    by (rule conjI [OF _ conjI])
qed

subsection \<open>The counters of the loop\<close>

text \<open>
  Claim C9. After each task of a run, the success count and the total size have not
  decreased, the success count is at most the number of tasks processed so far (so at
  most the number of all tasks), and the total size is not negative: the counters after
  a prefix \<open>xs\<close> of the tasks are compared with those after any longer prefix \<open>xs @ ys\<close>.
\<close>

theorem counters_monotone:
  assumes "main_loop hf n i xs (0, 0) w = Inr ((c1, t1), w1)"
    and "main_loop hf n i (xs @ ys) (0, 0) w = Inr ((c2, t2), w2)"
  shows "0 \<le> c1 \<and> c1 \<le> c2 \<and> c1 \<le> int (length xs) \<and> c2 \<le> int (length (xs @ ys)) \<and>
         0 \<le> t1 \<and> t1 \<le> t2"
proof -
  from assms have "main_loop hf n (i + length xs) ys (c1, t1) w1 = Inr ((c2, t2), w2)"
    by (simp add: main_loop_append)
  from main_loop_invariant [OF this] main_loop_invariant [OF assms(1)]
    main_loop_invariant [OF assms(2)] show ?thesis
    by auto
qed

theorem counters_monotone_witness:
  "\<exists>w1 w2. main_loop failing_fetch 2 1 [demo_task] (0, 0) stocked_world = Inr ((1, 300), w1) \<and>
     main_loop failing_fetch 2 1 ([demo_task] @ [demo_task]) (0, 0) stocked_world =
       Inr ((2, 600), w2) \<and>
     ((0::int) \<le> 1 \<and> (1::int) \<le> 2 \<and> 1 \<le> int (length [demo_task]) \<and>
      2 \<le> int (length ([demo_task] @ [demo_task])) \<and> (0::int) \<le> 300 \<and> (300::int) \<le> 600)"
proof -
  let ?target = "os_path_join (local_dir demo_task) (filename demo_task)"
  from main_step_existing [OF stocked_exists demo_relative, of failing_fetch 2 1 0 0]
  obtain sz w1 where g1: "os_path_getsize (disk stocked_world) ?target = Inr sz"
    and s1: "main_step failing_fetch 2 1 demo_task (0, 0) stocked_world = Inr ((0 + 1, 0 + sz), w1)"
    and d1: "disk w1 = disk stocked_world"
    by (elim exE conjE) (rule that)
  from g1 have "sz = 300"
    by (simp add: stocked_size)
  with s1 have s1': "main_step failing_fetch 2 1 demo_task (0, 0) stocked_world = Inr ((1, 300), w1)"
    by simp
  have e1: "os_path_exists (disk w1) ?target"
    unfolding d1 by (rule stocked_exists)
  from main_step_existing [OF e1 demo_relative, of failing_fetch 2 "1 + 1" 1 300]
  obtain sz2 w2 where g2: "os_path_getsize (disk w1) ?target = Inr sz2"
    and s2: "main_step failing_fetch 2 (1 + 1) demo_task (1, 300) w1 = Inr ((1 + 1, 300 + sz2), w2)"
    by (elim exE conjE) (rule that)
  from g2 have "sz2 = 300"
    by (simp add: d1 stocked_size)
  then have "(1 + 1, 300 + sz2) = (2::int, 600::int)"
    by simp
  with s2 have s2': "main_step failing_fetch 2 (1 + 1) demo_task (1, 300) w1 = Inr ((2, 600), w2)"
    by (simp only:)
  from s1' have a: "main_loop failing_fetch 2 1 [demo_task] (0, 0) stocked_world = Inr ((1, 300), w1)"
    by simp
  from s1' s2' have "main_loop failing_fetch 2 1 [demo_task, demo_task] (0, 0) stocked_world =
                   Inr ((2, 600), w2)"
    by (rule main_loop_two)
  then have b: "main_loop failing_fetch 2 1 ([demo_task] @ [demo_task]) (0, 0) stocked_world =
                   Inr ((2, 600), w2)"
    by simp
  have c: "(0::int) \<le> 1 \<and> (1::int) \<le> 2 \<and> 1 \<le> int (length [demo_task]) \<and>
      2 \<le> int (length ([demo_task] @ [demo_task])) \<and> (0::int) \<le> 300 \<and> (300::int) \<le> 600"
    by (rule counters_monotone [OF a b])
  have "main_loop failing_fetch 2 1 [demo_task] (0, 0) stocked_world = Inr ((1, 300), w1) \<and>
     main_loop failing_fetch 2 1 ([demo_task] @ [demo_task]) (0, 0) stocked_world =
       Inr ((2, 600), w2) \<and>
     ((0::int) \<le> 1 \<and> (1::int) \<le> 2 \<and> 1 \<le> int (length [demo_task]) \<and>
      2 \<le> int (length ([demo_task] @ [demo_task])) \<and> (0::int) \<le> 300 \<and> (300::int) \<le> 600)"
    by (rule conjI [OF a conjI [OF b c]])
  then show ?thesis
    by (intro exI)
qed

subsection \<open>The summary of a run\<close>

lemma fold_print_fields:
  "disk (fold print ls w) = disk w \<and> remote (fold print ls w) = remote w \<and>
   fetch_log (fold print ls w) = fetch_log w \<and> out (fold print ls w) = out w @ ls"
  by (induction ls arbitrary: w) simp_all

lemma print_all_fields [simp]:
  "disk (print_all ls w) = disk w" "remote (print_all ls w) = remote w"
  "fetch_log (print_all ls w) = fetch_log w" "out (print_all ls w) = out w @ ls"
  by (simp_all add: print_all_def fold_print_fields)

lemma main_of_loop:
  assumes "main_loop hf (length models) 1 models (0, 0) (print_all (banner (length models)) w) =
             Inr ((sc, ts), w2)"
    and "format_file_size ts = Inr s"
  shows "main hf models w =
           Inr (print_all (summary_head (length models) sc s @
                  (if sc = int (length models) then next_steps
                   else retry_hint (int (length models) - sc))) w2)"
  using assms unfolding main_def banner_def Let_def by simp

lemma loop_total_formats:
  assumes "main_loop hf n i xs (0, 0) w = Inr ((sc, ts), w2)"
    and "length xs < 2 ^ 63"
  shows "\<exists>s. format_file_size ts = Inr s"
proof -
  from main_loop_invariant [OF assms(1)] have nonneg: "0 \<le> ts"
    and b: "ts \<le> int (length xs) * (2 ^ 63 - 1)"
    by simp_all
  from assms(2) have "int (length xs) \<le> 2 ^ 63"
    by simp
  then have "int (length xs) * (2 ^ 63 - 1) \<le> 2 ^ 63 * (2 ^ 63 - 1)"
    by (rule mult_right_mono) simp
  also have "\<dots> < 2 ^ 1024 - 2 ^ 970"
    by simp
  finally have "int (length xs) * (2 ^ 63 - 1) < 2 ^ 1024 - 2 ^ 970" .
  with b have "ts < 2 ^ 1024 - 2 ^ 970"
    by (rule le_less_trans)
  with nonneg show ?thesis
    by (rule format_file_size_total)
qed

lemma summary_lines:
  "summary_head n sc s @ (if sc = int n then next_steps else retry_hint (int n - sc)) =
     [newline @ replicate 50 CHR ''='', bar_chart @ '' Download Summary'', replicate 50 CHR ''='',
      check_mark @ '' Successfully downloaded: '' @ str_int sc @ ''/'' @ str_nat n @ '' models'',
      package @ '' Total size: '' @ s] @
     (if sc = int n then next_steps
      else [newline @ warning_sign @ ''  '' @ str_int (int n - sc) @ '' model(s) failed to download'',
            ''Please check your internet connection and try again''])"
  by (simp add: summary_head_def retry_hint_def)

lemma scenario_lines:
  "summary_head 3 2 ''300.0 B'' @ (if (2::int) = int 3 then next_steps else retry_hint (int 3 - 2)) =
     [newline @ replicate 50 CHR ''='', bar_chart @ '' Download Summary'', replicate 50 CHR ''='',
      check_mark @ '' Successfully downloaded: 2/3 models'',
      package @ '' Total size: 300.0 B'',
      newline @ warning_sign @ ''  1 model(s) failed to download'',
      ''Please check your internet connection and try again'']"
  by (simp add: summary_head_def retry_hint_def str_int_def str_nat_digit digit_chars)

lemma MODELS_list: "MODELS = [MODELS ! 0, MODELS ! 1, MODELS ! 2]" "length MODELS = 3"
  by (simp_all add: MODELS_def)

lemma MODELS_fields:
  "repo_id (MODELS ! 0) = ''irish-quant/Qwen-Qwen2.5-Coder-3B-Instruct-2bit''"
  "filename (MODELS ! 0) = ''Qwen2.5-Coder-3B-Instruct-Q2_K.gguf''"
  "local_dir (MODELS ! 0) = ''models/2bit''"
  "repo_id (MODELS ! 1) = ''irish-quant/Qwen-Qwen2.5-Coder-3B-Instruct-3bit''"
  "filename (MODELS ! 1) = ''Qwen2.5-Coder-3B-Instruct-Q3_K_M.gguf''"
  "local_dir (MODELS ! 1) = ''models/3bit''"
  "repo_id (MODELS ! 2) = ''irish-quant/Qwen-Qwen2.5-Coder-3B-Instruct-4bit''"
  "filename (MODELS ! 2) = ''Qwen2.5-Coder-3B-Instruct-Q4_K_M.gguf''"
  "local_dir (MODELS ! 2) = ''models/4bit''"
  by (simp_all add: MODELS_def)

lemma scenario_loop:
  "\<exists>w3. main_loop two_of_three 3 1 [MODELS ! 0, MODELS ! 1, MODELS ! 2] (0, 0)
           (print_all (banner 3) blank_world) = Inr ((2, 300), w3)"
proof -
  let ?w0 = "print_all (banner 3) blank_world :: unit world"
  let ?q2 = "''Qwen2.5-Coder-3B-Instruct-Q2_K.gguf''"
  let ?q3 = "''Qwen2.5-Coder-3B-Instruct-Q3_K_M.gguf''"
  let ?fsA = "\<lparr>nodes = [[] \<mapsto> Dir 4096, [''models''] \<mapsto> Dir 4096,
                        [''models'', ''2bit''] \<mapsto> Dir 4096], cwd = [], dir_size = 4096\<rparr>"
  let ?fsB = "\<lparr>nodes = [[] \<mapsto> Dir 4096, [''models''] \<mapsto> Dir 4096,
                        [''models'', ''2bit''] \<mapsto> Dir 4096,
                        [''models'', ''2bit'', ?q2] \<mapsto> File 100], cwd = [], dir_size = 4096\<rparr>"
  let ?fsC = "\<lparr>nodes = [[] \<mapsto> Dir 4096, [''models''] \<mapsto> Dir 4096,
                        [''models'', ''2bit''] \<mapsto> Dir 4096,
                        [''models'', ''2bit'', ?q2] \<mapsto> File 100,
                        [''models'', ''3bit''] \<mapsto> Dir 4096], cwd = [], dir_size = 4096\<rparr>"
  let ?fsD = "\<lparr>nodes = [[] \<mapsto> Dir 4096, [''models''] \<mapsto> Dir 4096,
                        [''models'', ''2bit''] \<mapsto> Dir 4096,
                        [''models'', ''2bit'', ?q2] \<mapsto> File 100,
                        [''models'', ''3bit''] \<mapsto> Dir 4096,
                        [''models'', ''3bit'', ?q3] \<mapsto> File 200], cwd = [], dir_size = 4096\<rparr>"
  let ?fsE = "\<lparr>nodes = [[] \<mapsto> Dir 4096, [''models''] \<mapsto> Dir 4096,
                        [''models'', ''2bit''] \<mapsto> Dir 4096,
                        [''models'', ''2bit'', ?q2] \<mapsto> File 100,
                        [''models'', ''3bit''] \<mapsto> Dir 4096,
                        [''models'', ''3bit'', ?q3] \<mapsto> File 200,
                        [''models'', ''4bit''] \<mapsto> Dir 4096], cwd = [], dir_size = 4096\<rparr>"

  have mk1: "path_mkdir True True (Path (local_dir (MODELS ! 0))) (disk ?w0) = Inr ?fsA"
    unfolding MODELS_fields
    by (simp add: Path_def blank_world_def path_mkdir.simps os_mkdir_def
        path_walk_def parent_def)
  have nx1: "\<not> os_path_exists ?fsA (os_path_join (local_dir (MODELS ! 0)) (filename (MODELS ! 0)))"
    unfolding MODELS_fields
    by (simp add: os_path_join_def os_path_exists_def os_stat_def resolve_def)
  have f1: "two_of_three (remote ?w0) ?fsA (repo_id (MODELS ! 0)) (filename (MODELS ! 0))
              (local_dir (MODELS ! 0)) = (Inr (''models/2bit/'' @ ?q2), (), ?fsB)"
    unfolding MODELS_fields
    by (simp add: two_of_three_def Path_def os_path_join_def)
  have ex1: "os_path_exists ?fsB (''models/2bit/'' @ ?q2)"
    by (simp add: os_path_exists_def os_stat_def resolve_def)
  have sz1: "size_or_zero ?fsB (os_path_join (local_dir (MODELS ! 0)) (filename (MODELS ! 0))) = 100"
    unfolding MODELS_fields
    by (simp add: size_or_zero_def os_path_getsize_def os_path_join_def
        os_stat_def resolve_def)
  from main_step_fetched [where hf = two_of_three and t = "MODELS ! 0" and w = "?w0",
      OF mk1 nx1 f1 ex1, of 3 1 0 0]
  obtain w1 where s1: "main_step two_of_three 3 1 (MODELS ! 0) (0, 0) ?w0 =
      Inr ((0 + 1, 0 + size_or_zero ?fsB
              (os_path_join (local_dir (MODELS ! 0)) (filename (MODELS ! 0)))), w1)"
    and d1: "disk w1 = ?fsB"
    by (elim exE conjE) (rule that)
  have "(0 + 1, 0 + size_or_zero ?fsB
              (os_path_join (local_dir (MODELS ! 0)) (filename (MODELS ! 0)))) = (1::int, 100::int)"
    by (simp only: sz1) simp
  with s1 have s1': "main_step two_of_three 3 1 (MODELS ! 0) (0, 0) ?w0 = Inr ((1, 100), w1)"
    by (simp only:)

  have mk2: "path_mkdir True True (Path (local_dir (MODELS ! 1))) (disk w1) = Inr ?fsC"
    unfolding d1 MODELS_fields
    by (simp add: Path_def path_mkdir.simps os_mkdir_def path_walk_def parent_def)
  have nx2: "\<not> os_path_exists ?fsC (os_path_join (local_dir (MODELS ! 1)) (filename (MODELS ! 1)))"
    unfolding MODELS_fields
    by (simp add: os_path_join_def os_path_exists_def os_stat_def resolve_def)
  have f2: "two_of_three (remote w1) ?fsC (repo_id (MODELS ! 1)) (filename (MODELS ! 1))
              (local_dir (MODELS ! 1)) = (Inr (''models/3bit/'' @ ?q3), (), ?fsD)"
    unfolding MODELS_fields
    by (simp add: two_of_three_def Path_def os_path_join_def)
  have ex2: "os_path_exists ?fsD (''models/3bit/'' @ ?q3)"
    by (simp add: os_path_exists_def os_stat_def resolve_def)
  have sz2: "size_or_zero ?fsD (os_path_join (local_dir (MODELS ! 1)) (filename (MODELS ! 1))) = 200"
    unfolding MODELS_fields
    by (simp add: size_or_zero_def os_path_getsize_def os_path_join_def
        os_stat_def resolve_def)
  from main_step_fetched [where hf = two_of_three and t = "MODELS ! 1" and w = w1,
      OF mk2 nx2 f2 ex2, of 3 "1 + 1" 1 100]
  obtain w2 where s2: "main_step two_of_three 3 (1 + 1) (MODELS ! 1) (1, 100) w1 =
      Inr ((1 + 1, 100 + size_or_zero ?fsD
              (os_path_join (local_dir (MODELS ! 1)) (filename (MODELS ! 1)))), w2)"
    and d2: "disk w2 = ?fsD"
    by (elim exE conjE) (rule that)
  have "(1 + 1, 100 + size_or_zero ?fsD
              (os_path_join (local_dir (MODELS ! 1)) (filename (MODELS ! 1)))) = (2::int, 300::int)"
    by (simp only: sz2) simp
  with s2 have s2': "main_step two_of_three 3 (1 + 1) (MODELS ! 1) (1, 100) w1 = Inr ((2, 300), w2)"
    by (simp only:)

  have mk3: "path_mkdir True True (Path (local_dir (MODELS ! 2))) (disk w2) = Inr ?fsE"
    unfolding d2 MODELS_fields
    by (simp add: Path_def path_mkdir.simps os_mkdir_def path_walk_def parent_def)
  have nx3: "\<not> os_path_exists ?fsE (os_path_join (local_dir (MODELS ! 2)) (filename (MODELS ! 2)))"
    unfolding MODELS_fields
    by (simp add: os_path_join_def os_path_exists_def os_stat_def resolve_def)
  have f3: "two_of_three (remote w2) ?fsE (repo_id (MODELS ! 2)) (filename (MODELS ! 2))
              (local_dir (MODELS ! 2)) = (Inl (ServiceError ''connection reset''), (), ?fsE)"
    unfolding MODELS_fields
    by (simp add: two_of_three_def)
  have failed: "(\<exists>e. (Inl (ServiceError ''connection reset'') :: exn + string) = Inl e) \<or>
     (\<exists>p. (Inl (ServiceError ''connection reset'') :: exn + string) = Inr p \<and>
          \<not> os_path_exists ?fsE p)"
    by simp
  from main_step_failed [where hf = two_of_three and t = "MODELS ! 2" and w = w2,
      OF mk3 nx3 f3 failed, of 3 "1 + 1 + 1" 2 300]
  obtain w3 where s3: "main_step two_of_three 3 (1 + 1 + 1) (MODELS ! 2) (2, 300) w2 =
      Inr ((2, 300), w3)"
    by (elim exE conjE) (rule that)
  from s1' s2' s3 have "main_loop two_of_three 3 1 [MODELS ! 0, MODELS ! 1, MODELS ! 2] (0, 0) ?w0 =
      Inr ((2, 300), w3)"
    by (rule main_loop_three)
  then show ?thesis ..
qed

text \<open>
  Claim C5. After the loop over the tasks, the run prints the number of successes against
  the number of tasks and the total size in its human-scaled unit; then the next-steps
  hint if every task succeeded, and otherwise the retry hint with the number of failed
  tasks. The total always has a text: it is a sum of file sizes, far below the largest
  float, for any list of fewer than \<open>2 ^ 63\<close> tasks. For three tasks of which two succeed
  with 100 and 200 bytes and one fails, the loop ends with the counters 2 and 300, and
  the report shows \<open>2/3\<close>, \<open>300.0 B\<close> and the hint that 1 model failed.
\<close>

theorem summary_report:
  "(\<forall>sc ts w2.
      main_loop hf (length models) 1 models (0, 0) (print_all (banner (length models)) w) =
        Inr ((sc, ts), w2) \<and> length models < 2 ^ 63 \<longrightarrow>
      (\<exists>size_text w'. format_file_size ts = Inr size_text \<and> main hf models w = Inr w' \<and>
         disk w' = disk w2 \<and>
         out w' = out w2 @
           [newline @ replicate 50 CHR ''='', bar_chart @ '' Download Summary'',
            replicate 50 CHR ''='',
            check_mark @ '' Successfully downloaded: '' @ str_int sc @ ''/'' @
              str_nat (length models) @ '' models'',
            package @ '' Total size: '' @ size_text] @
           (if sc = int (length models) then next_steps
            else [newline @ warning_sign @ ''  '' @ str_int (int (length models) - sc) @
                    '' model(s) failed to download'',
                  ''Please check your internet connection and try again'']))) \<and>
   (\<forall>w2. length models = 3 \<and>
      main_loop hf (length models) 1 models (0, 0) (print_all (banner (length models)) w) =
        Inr ((2, 300), w2) \<longrightarrow>
      (\<exists>w'. main hf models w = Inr w' \<and>
         out w' = out w2 @
           [newline @ replicate 50 CHR ''='', bar_chart @ '' Download Summary'',
            replicate 50 CHR ''='',
            check_mark @ '' Successfully downloaded: 2/3 models'',
            package @ '' Total size: 300.0 B'',
            newline @ warning_sign @ ''  1 model(s) failed to download'',
            ''Please check your internet connection and try again'']))"
proof (intro conjI allI impI)
  fix sc ts w2
  assume a: "main_loop hf (length models) 1 models (0, 0) (print_all (banner (length models)) w) =
        Inr ((sc, ts), w2) \<and> length models < 2 ^ 63"
  then have loop: "main_loop hf (length models) 1 models (0, 0)
                     (print_all (banner (length models)) w) = Inr ((sc, ts), w2)"
    by (rule conjunct1)
  from a have len: "length models < 2 ^ 63"
    by (rule conjunct2)
  from loop_total_formats [OF loop len] obtain s where s: "format_file_size ts = Inr s" ..
  let ?w' = "print_all (summary_head (length models) sc s @
                  (if sc = int (length models) then next_steps
                   else retry_hint (int (length models) - sc))) w2"
  from loop s have m: "main hf models w = Inr ?w'"
    by (rule main_of_loop)
  have d: "disk ?w' = disk w2"
    by simp
  have "out ?w' = out w2 @ (summary_head (length models) sc s @
                  (if sc = int (length models) then next_steps
                   else retry_hint (int (length models) - sc)))"
    by simp
  then have o: "out ?w' = out w2 @
           [newline @ replicate 50 CHR ''='', bar_chart @ '' Download Summary'',
            replicate 50 CHR ''='',
            check_mark @ '' Successfully downloaded: '' @ str_int sc @ ''/'' @
              str_nat (length models) @ '' models'',
            package @ '' Total size: '' @ s] @
           (if sc = int (length models) then next_steps
            else [newline @ warning_sign @ ''  '' @ str_int (int (length models) - sc) @
                    '' model(s) failed to download'',
                  ''Please check your internet connection and try again''])"
    by (simp only: summary_lines)
  from s m d o show "\<exists>size_text w'. format_file_size ts = Inr size_text \<and> main hf models w = Inr w' \<and>
         disk w' = disk w2 \<and>
         out w' = out w2 @
           [newline @ replicate 50 CHR ''='', bar_chart @ '' Download Summary'',
            replicate 50 CHR ''='',
            check_mark @ '' Successfully downloaded: '' @ str_int sc @ ''/'' @
              str_nat (length models) @ '' models'',
            package @ '' Total size: '' @ size_text] @
           (if sc = int (length models) then next_steps
            else [newline @ warning_sign @ ''  '' @ str_int (int (length models) - sc) @
                    '' model(s) failed to download'',
                  ''Please check your internet connection and try again''])"
    by (intro exI conjI)
next
  fix w2
  assume a: "length models = 3 \<and>
      main_loop hf (length models) 1 models (0, 0) (print_all (banner (length models)) w) =
        Inr ((2, 300), w2)"
  then have len: "length models = 3"
    by (rule conjunct1)
  from a have loop: "main_loop hf (length models) 1 models (0, 0)
                 (print_all (banner (length models)) w) = Inr ((2, 300), w2)"
    by (rule conjunct2)
  let ?w' = "print_all (summary_head (length models) 2 ''300.0 B'' @
                  (if 2 = int (length models) then next_steps
                   else retry_hint (int (length models) - 2))) w2"
  from loop format_300 have m: "main hf models w = Inr ?w'"
    by (rule main_of_loop)
  have "out ?w' = out w2 @ (summary_head 3 2 ''300.0 B'' @
                  (if (2::int) = int 3 then next_steps else retry_hint (int 3 - 2)))"
    by (simp only: print_all_fields len)
  then have o: "out ?w' = out w2 @
           [newline @ replicate 50 CHR ''='', bar_chart @ '' Download Summary'',
            replicate 50 CHR ''='',
            check_mark @ '' Successfully downloaded: 2/3 models'',
            package @ '' Total size: 300.0 B'',
            newline @ warning_sign @ ''  1 model(s) failed to download'',
            ''Please check your internet connection and try again'']"
    by (simp only: scenario_lines)
  from m o show "\<exists>w'. main hf models w = Inr w' \<and>
         out w' = out w2 @
           [newline @ replicate 50 CHR ''='', bar_chart @ '' Download Summary'',
            replicate 50 CHR ''='',
            check_mark @ '' Successfully downloaded: 2/3 models'',
            package @ '' Total size: 300.0 B'',
            newline @ warning_sign @ ''  1 model(s) failed to download'',
            ''Please check your internet connection and try again'']"
    by (intro exI conjI)
qed

theorem summary_report_witness:
  "\<exists>w2 w'. main_loop two_of_three (length MODELS) 1 MODELS (0, 0)
              (print_all (banner (length MODELS)) blank_world) = Inr ((2, 300), w2) \<and>
     length MODELS = 3 \<and>
     format_file_size 300 = Inr ''300.0 B'' \<and>
     main two_of_three MODELS blank_world = Inr w' \<and>
     out w' = out w2 @
       [newline @ replicate 50 CHR ''='', bar_chart @ '' Download Summary'',
        replicate 50 CHR ''='',
        check_mark @ '' Successfully downloaded: 2/3 models'',
        package @ '' Total size: 300.0 B'',
        newline @ warning_sign @ ''  1 model(s) failed to download'',
        ''Please check your internet connection and try again'']"
proof -
  from scenario_loop obtain w2 where
    "main_loop two_of_three 3 1 [MODELS ! 0, MODELS ! 1, MODELS ! 2] (0, 0)
       (print_all (banner 3) blank_world) = Inr ((2, 300), w2)" ..
  then have loop: "main_loop two_of_three (length MODELS) 1 MODELS (0, 0)
              (print_all (banner (length MODELS)) blank_world) = Inr ((2, 300), w2)"
    by (simp only: MODELS_list(2)) (simp only: MODELS_list(1) [symmetric])
  note report = summary_report [where hf = two_of_three and models = MODELS and w = blank_world]
  have small: "length MODELS < 2 ^ 63"
    by (simp add: MODELS_list(2))
  from report [THEN conjunct1, THEN spec, THEN spec, THEN spec, THEN mp, OF conjI [OF loop small]]
  obtain size_text where "format_file_size 300 = Inr size_text"
    by (elim exE conjE) (rule that)
  then have fmt: "format_file_size 300 = Inr ''300.0 B''"
    by (simp add: format_300)
  from report [THEN conjunct2, THEN spec, THEN mp, OF conjI [OF MODELS_list(2) loop]]
  obtain w' where m: "main two_of_three MODELS blank_world = Inr w'"
    and o: "out w' = out w2 @
       [newline @ replicate 50 CHR ''='', bar_chart @ '' Download Summary'',
        replicate 50 CHR ''='',
        check_mark @ '' Successfully downloaded: 2/3 models'',
        package @ '' Total size: 300.0 B'',
        newline @ warning_sign @ ''  1 model(s) failed to download'',
        ''Please check your internet connection and try again'']"
    by (elim exE conjE) (rule that)
  from loop MODELS_list(2) fmt m o show ?thesis
    by (intro exI conjI)
qed

end
